theory Spec2Isabelle
  imports Complex_Main "HOL-Library.Signed_Division"
begin

section \<open>Detailed-placement manager: data model\<close>

text \<open>
  The embedding follows \<^verbatim>\<open>DetailedMgr\<close> (detailed_manager.cxx).  C++ \<^verbatim>\<open>int\<close> is
  modelled by \<^typ>\<open>int\<close> (coordinates are database units, far from overflow), a
  \<^verbatim>\<open>double\<close> that only ever holds sums, differences and products of integers by
  \<^typ>\<open>int\<close> as well, and a \<^verbatim>\<open>double\<close> that holds halves or user rectangles by
  \<^typ>\<open>rat\<close>.  A \<^verbatim>\<open>Node*\<close> is the node's id (the index of the node in the network),
  a \<^verbatim>\<open>DetailedSeg*\<close> is the index of the segment in \<^verbatim>\<open>m_segments\<close>; a null pointer
  is \<^term>\<open>None\<close>.  The call \<^verbatim>\<open>internalError\<close> ends the process: it is the result
  \<open>Inl (InternalError msg)\<close>.  Reading a vector outside its bounds is undefined in C++:
  it is the result \<open>Inl OutOfRange\<close>; an integer division by zero is \<open>Inl DivisionByZero\<close>;
  a loop that does not end is \<open>Inl Diverges\<close>.
\<close>

datatype error = InternalError string | OutOfRange | DivisionByZero | Diverges

record Node =
  nd_left :: int
  nd_bottom :: int
  nd_width :: int
  nd_height :: int
  nd_regionId :: int
  nd_origLeft :: int
  nd_origBottom :: int

definition getRight :: "Node \<Rightarrow> int" where
  "getRight n = nd_left n + nd_width n"

definition getTop :: "Node \<Rightarrow> int" where
  "getTop n = nd_bottom n + nd_height n"

record Row =
  row_bottom :: int
  row_height :: int
  row_left :: int
  row_right :: int
  row_siteSpacing :: int
  row_siteWidth :: int

definition row_top :: "Row \<Rightarrow> int" where
  "row_top r = row_bottom r + row_height r"

record Rectangle =
  rect_xmin :: rat
  rect_ymin :: rat
  rect_xmax :: rat
  rect_ymax :: rat

record Rectangle_i =
  recti_xmin :: int
  recti_ymin :: int
  recti_xmax :: int
  recti_ymax :: int

record Region =
  reg_id :: int
  reg_rects :: "Rectangle_i list"

record RoutingParams =
  rt_num_layers :: int
  rt_layerBlockages :: "Rectangle list list"

text \<open>
  Modelled from the spec: the Architecture collaborator (architecture.h is not part of
  the sources).  The spec lists what the manager consumes from it, read-only: the row
  table, the region table, the placement extent, the cell spacing rule between a left
  and a right neighbour (either may be absent), the number of rows a cell spans, the
  power-compatibility predicate and the closest row to a y coordinate.  The queries
  whose code is absent are fields of the record, so every theorem holds for any of them.
\<close>

record Architecture =
  arch_rows :: "Row list"
  arch_minX :: int
  arch_maxX :: int
  arch_minY :: int
  arch_maxY :: int
  arch_regions :: "Region list"
  arch_getCellSpacing :: "nat option \<Rightarrow> nat option \<Rightarrow> int"
  arch_getCellHeightInRows :: "nat \<Rightarrow> int"
  arch_power_compatible :: "nat \<Rightarrow> nat \<Rightarrow> bool"
  arch_find_closest_row :: "int \<Rightarrow> int"

text \<open>
  Modelled from the spec: \<^verbatim>\<open>DetailedSeg\<close> (detailed_segment.h is not part of the
  sources): an x-interval within one row, tagged with a region id, an integer id, a row
  id and a running utilization.  A fresh segment belongs to the default region 0 and has
  utilization zero.
\<close>

record DetailedSeg =
  seg_segId :: int
  seg_rowId :: int
  seg_regId :: int
  seg_minX :: int
  seg_maxX :: int
  seg_util :: int

definition new_DetailedSeg :: DetailedSeg where
  "new_DetailedSeg =
     \<lparr>seg_segId = -1, seg_rowId = -1, seg_regId = 0, seg_minX = 0, seg_maxX = 0, seg_util = 0\<rparr>"

definition seg_getWidth :: "DetailedSeg \<Rightarrow> int" where
  "seg_getWidth s = seg_maxX s - seg_minX s"

definition addUtil :: "int \<Rightarrow> DetailedSeg \<Rightarrow> DetailedSeg" where
  "addUtil amt s = s\<lparr>seg_util := seg_util s + amt\<rparr>"

definition remUtil :: "int \<Rightarrow> DetailedSeg \<Rightarrow> DetailedSeg" where
  "remUtil amt s = s\<lparr>seg_util := seg_util s - amt\<rparr>"

record DetailedMgr =
  m_arch :: Architecture
  m_nodes :: "nat \<Rightarrow> Node"
  m_numNodes :: nat
  m_rt :: "RoutingParams option"
  m_fixedCells :: "nat list"
  m_singleRowHeight :: int
  m_numSingleHeightRows :: int
  m_maxDispX :: int
  m_maxDispY :: int
  m_origLeft :: "int list"
  m_origBottom :: "int list"
  m_moveLimit :: nat
  m_nMoved :: nat
  m_movedNodes :: "nat option list"
  m_curLeft :: "int list"
  m_curBottom :: "int list"
  m_curSeg :: "int list list"
  m_newLeft :: "int list"
  m_newBottom :: "int list"
  m_newSeg :: "int list list"
  m_blockages :: "(int \<times> int) list list"
  m_segments :: "DetailedSeg list"
  m_segsInRow :: "nat list list"
  m_cellsInSeg :: "nat list list"
  m_reverseCellToSegs :: "nat list list"

definition valid_ix :: "int \<Rightarrow> 'a list \<Rightarrow> bool" where
  "valid_ix i xs \<longleftrightarrow> 0 \<le> i \<and> i < int (length xs)"

text \<open>
  A comparison of a \<^verbatim>\<open>size_t\<close> with an \<^verbatim>\<open>int\<close> converts the \<^verbatim>\<open>int\<close> to the
  unsigned 64-bit type first, so a negative \<^verbatim>\<open>int\<close> counts as a huge number.
\<close>

definition to_size_t :: "int \<Rightarrow> int" where
  "to_size_t k = (if k < 0 then 2 ^ 64 + k else k)"

definition size_ge :: "nat \<Rightarrow> int \<Rightarrow> bool" where
  "size_ge n k \<longleftrightarrow> int n \<ge> to_size_t k"

definition size_ne :: "nat \<Rightarrow> int \<Rightarrow> bool" where
  "size_ne n k \<longleftrightarrow> int n \<noteq> to_size_t k"

definition getRow :: "Architecture \<Rightarrow> int \<Rightarrow> Row" where
  "getRow a r = arch_rows a ! nat r"

section \<open>Construction and the move list\<close>

text \<open>
  The constructor: the displacement limit is twice the larger side of the placement
  extent, the move limit is 10, every move-list array has \<^verbatim>\<open>m_moveLimit\<close> entries, the
  reverse map has one empty entry per node, and the original positions are recorded.
  The random generator, the logger and the target utilization play no part here.
\<close>

definition recordOriginalPositions :: "DetailedMgr \<Rightarrow> DetailedMgr" where
  "recordOriginalPositions m =
     m\<lparr>m_origBottom := map (\<lambda>i. nd_bottom (m_nodes m i)) [0..<m_numNodes m],
       m_origLeft := map (\<lambda>i. nd_left (m_nodes m i)) [0..<m_numNodes m]\<rparr>"

definition DetailedMgr_new ::
  "Architecture \<Rightarrow> (nat \<Rightarrow> Node) \<Rightarrow> nat \<Rightarrow> RoutingParams option \<Rightarrow> error + DetailedMgr" where
  "DetailedMgr_new arch nodes numNodes rt =
     (if arch_rows arch = [] then Inl OutOfRange
      else
        let limit = 2 * max (arch_maxX arch - arch_minX arch) (arch_maxY arch - arch_minY arch);
            moveLimit = 10
        in Inr (recordOriginalPositions
          \<lparr>m_arch = arch, m_nodes = nodes, m_numNodes = numNodes, m_rt = rt,
           m_fixedCells = [],
           m_singleRowHeight = row_height (getRow arch 0),
           m_numSingleHeightRows = int (length (arch_rows arch)),
           m_maxDispX = limit, m_maxDispY = limit,
           m_origLeft = [], m_origBottom = [],
           m_moveLimit = moveLimit, m_nMoved = 0,
           m_movedNodes = replicate moveLimit None,
           m_curLeft = replicate moveLimit 0, m_curBottom = replicate moveLimit 0,
           m_curSeg = replicate moveLimit [],
           m_newLeft = replicate moveLimit 0, m_newBottom = replicate moveLimit 0,
           m_newSeg = replicate moveLimit [],
           m_blockages = [], m_segments = [], m_segsInRow = [], m_cellsInSeg = [],
           m_reverseCellToSegs = replicate numNodes []\<rparr>))"

definition clearMoveList :: "DetailedMgr \<Rightarrow> DetailedMgr" where
  "clearMoveList m = m\<lparr>m_nMoved := 0\<rparr>"

definition rejectMove :: "DetailedMgr \<Rightarrow> DetailedMgr" where
  "rejectMove m = clearMoveList m"

text \<open>The single-segment overload of \<^verbatim>\<open>addToMoveList\<close>.\<close>

definition addToMoveList ::
  "nat \<Rightarrow> int \<Rightarrow> int \<Rightarrow> int \<Rightarrow> int \<Rightarrow> int \<Rightarrow> int \<Rightarrow> DetailedMgr \<Rightarrow> bool \<times> DetailedMgr" where
  "addToMoveList ndi curLeft curBottom curSeg newLeft newBottom newSeg m =
     (if m_nMoved m \<ge> m_moveLimit m then (False, m)
      else
        let dy = \<bar>rat_of_int (newBottom - nd_origBottom (m_nodes m ndi))\<bar>;
            dx = \<bar>rat_of_int (newLeft - nd_origLeft (m_nodes m ndi))\<bar>
        in if \<lceil>dx\<rceil> > m_maxDispX m \<or> \<lceil>dy\<rceil> > m_maxDispY m then (False, m)
           else
             let k = m_nMoved m in
             (True, m\<lparr>m_movedNodes := (m_movedNodes m)[k := Some ndi],
                      m_curLeft := (m_curLeft m)[k := curLeft],
                      m_curBottom := (m_curBottom m)[k := curBottom],
                      m_curSeg := (m_curSeg m)[k := [curSeg]],
                      m_newLeft := (m_newLeft m)[k := newLeft],
                      m_newBottom := (m_newBottom m)[k := newBottom],
                      m_newSeg := (m_newSeg m)[k := [newSeg]],
                      m_nMoved := k + 1\<rparr>))"

text \<open>The multi-segment overload: the move limit is the only test.\<close>

definition addToMoveListMulti ::
  "nat \<Rightarrow> int \<Rightarrow> int \<Rightarrow> int list \<Rightarrow> int \<Rightarrow> int \<Rightarrow> int list \<Rightarrow> DetailedMgr \<Rightarrow> bool \<times> DetailedMgr" where
  "addToMoveListMulti ndi curLeft curBottom curSegs newLeft newBottom newSegs m =
     (if m_nMoved m \<ge> m_moveLimit m then (False, m)
      else
        let k = m_nMoved m in
        (True, m\<lparr>m_movedNodes := (m_movedNodes m)[k := Some ndi],
                 m_curLeft := (m_curLeft m)[k := curLeft],
                 m_curBottom := (m_curBottom m)[k := curBottom],
                 m_curSeg := (m_curSeg m)[k := curSegs],
                 m_newLeft := (m_newLeft m)[k := newLeft],
                 m_newBottom := (m_newBottom m)[k := newBottom],
                 m_newSeg := (m_newSeg m)[k := newSegs],
                 m_nMoved := k + 1\<rparr>))"

text \<open>
  One staged entry is what the seven parallel arrays hold at one index; the staged move
  list is the entries below \<^verbatim>\<open>m_nMoved\<close>.
\<close>

record Move =
  mv_node :: "nat option"
  mv_curLeft :: int
  mv_curBottom :: int
  mv_curSeg :: "int list"
  mv_newLeft :: int
  mv_newBottom :: int
  mv_newSeg :: "int list"

definition stagedEntry :: "DetailedMgr \<Rightarrow> nat \<Rightarrow> Move" where
  "stagedEntry m i =
     \<lparr>mv_node = m_movedNodes m ! i, mv_curLeft = m_curLeft m ! i,
      mv_curBottom = m_curBottom m ! i, mv_curSeg = m_curSeg m ! i,
      mv_newLeft = m_newLeft m ! i, mv_newBottom = m_newBottom m ! i,
      mv_newSeg = m_newSeg m ! i\<rparr>"

definition stagedMoves :: "DetailedMgr \<Rightarrow> Move list" where
  "stagedMoves m = map (stagedEntry m) [0..<m_nMoved m]"

text \<open>
  The invariant the constructor establishes for the move list and that no operation
  changes: the limit is 10 and each array has that many entries.
\<close>

definition moveListSized :: "DetailedMgr \<Rightarrow> bool" where
  "moveListSized m \<longleftrightarrow>
     m_moveLimit m = 10 \<and>
     length (m_movedNodes m) = 10 \<and> length (m_curLeft m) = 10 \<and>
     length (m_curBottom m) = 10 \<and> length (m_curSeg m) = 10 \<and>
     length (m_newLeft m) = 10 \<and> length (m_newBottom m) = 10 \<and>
     length (m_newSeg m) = 10"

section \<open>Cells in segments\<close>

text \<open>
  Modelled from the spec: \<^verbatim>\<open>compareNodesX\<close> (declared in detailed_manager.h, which is
  not part of the sources) orders cells by x-center, \<open>left + 0.5 * width\<close>.
\<close>

definition centerX :: "Node \<Rightarrow> rat" where
  "centerX n = rat_of_int (nd_left n) + (1 / 2) * rat_of_int (nd_width n)"

text \<open>
  \<^verbatim>\<open>std::lower_bound(first, last, x, compareNodesX())\<close>: the position of the first cell
  whose center is not below \<open>x\<close> (the C++ standard specifies the result for a range
  partitioned by the comparison, as a sorted cell list is).
\<close>

definition lower_bound :: "(nat \<Rightarrow> Node) \<Rightarrow> nat list \<Rightarrow> rat \<Rightarrow> nat" where
  "lower_bound nodes cells x = length (takeWhile (\<lambda>c. centerX (nodes c) < x) cells)"

definition ceilWidth :: "Node \<Rightarrow> int" where
  "ceilWidth n = \<lceil>rat_of_int (nd_width n)\<rceil>"

definition removeCellFromSegment :: "nat \<Rightarrow> int \<Rightarrow> DetailedMgr \<Rightarrow> error + DetailedMgr" where
  "removeCellFromSegment nd seg m =
     (if \<not> (valid_ix seg (m_cellsInSeg m) \<and> valid_ix seg (m_segments m)
             \<and> nd < length (m_reverseCellToSegs m)) then Inl OutOfRange
      else
        let s = nat seg;
            width = ceilWidth (m_nodes m nd)
        in if nd \<notin> set (m_cellsInSeg m ! s)
           then Inl (InternalError ''Cell not found in expected segment'')
           else if s \<notin> set (m_reverseCellToSegs m ! nd)
           then Inl (InternalError ''Cannot find segment for cell'')
           else Inr (m\<lparr>m_reverseCellToSegs :=
                         (m_reverseCellToSegs m)[nd := remove1 s (m_reverseCellToSegs m ! nd)],
                       m_cellsInSeg := (m_cellsInSeg m)[s := remove1 nd (m_cellsInSeg m ! s)],
                       m_segments := (m_segments m)[s := remUtil width (m_segments m ! s)]\<rparr>))"

definition addCellToSegment :: "nat \<Rightarrow> int \<Rightarrow> DetailedMgr \<Rightarrow> error + DetailedMgr" where
  "addCellToSegment nd seg m =
     (if \<not> (valid_ix seg (m_cellsInSeg m) \<and> valid_ix seg (m_segments m)
             \<and> nd < length (m_reverseCellToSegs m)) then Inl OutOfRange
      else
        let s = nat seg;
            x = centerX (m_nodes m nd);
            width = ceilWidth (m_nodes m nd);
            cells = m_cellsInSeg m ! s;
            it = lower_bound (m_nodes m) cells x;
            m1 = m\<lparr>m_cellsInSeg := (m_cellsInSeg m)[s := take it cells @ nd # drop it cells],
                   m_segments := (m_segments m)[s := addUtil width (m_segments m ! s)]\<rparr>;
            spanned = arch_getCellHeightInRows (m_arch m) nd
        in if s \<in> set (m_reverseCellToSegs m ! nd)
           then Inl (InternalError ''Segment already present in cell to segment map'')
           else if size_ge (length (m_reverseCellToSegs m ! nd)) spanned
           then Inl (InternalError ''Cell to segment map incorrectly sized'')
           else Inr (m1\<lparr>m_reverseCellToSegs :=
                          (m_reverseCellToSegs m)[nd := m_reverseCellToSegs m ! nd @ [s]]\<rparr>))"

text \<open>
  \<^verbatim>\<open>removeAllCellsFromSegments\<close>: every segment's cell list (found through the
  segment's own id) is emptied and its utilization reset, then every reverse-map entry
  is emptied.
\<close>

fun removeAllCells_loop :: "nat list \<Rightarrow> DetailedMgr \<Rightarrow> error + DetailedMgr" where
  "removeAllCells_loop [] m = Inr m"
| "removeAllCells_loop (i # rest) m =
     (let segId = seg_segId (m_segments m ! i)
      in if \<not> valid_ix segId (m_cellsInSeg m) then Inl OutOfRange
         else removeAllCells_loop rest
                (m\<lparr>m_cellsInSeg := (m_cellsInSeg m)[nat segId := []],
                   m_segments := (m_segments m)[i := (m_segments m ! i)\<lparr>seg_util := 0\<rparr>]\<rparr>))"

definition removeAllCellsFromSegments :: "DetailedMgr \<Rightarrow> error + DetailedMgr" where
  "removeAllCellsFromSegments m =
     (case removeAllCells_loop [0..<length (m_segments m)] m of
        Inl e \<Rightarrow> Inl e
      | Inr m' \<Rightarrow> Inr (m'\<lparr>m_reverseCellToSegs := map (\<lambda>_. []) (m_reverseCellToSegs m')\<rparr>))"

text \<open>
  \<^verbatim>\<open>resortSegment\<close>: a stable sort of the segment's cell list by x-center, then the
  utilization is recomputed from zero, one cell at a time.
\<close>

definition resortSegment :: "nat \<Rightarrow> DetailedMgr \<Rightarrow> error + DetailedMgr" where
  "resortSegment segPtr m =
     (if segPtr \<ge> length (m_segments m) then Inl OutOfRange
      else
        let segId = seg_segId (m_segments m ! segPtr)
        in if \<not> valid_ix segId (m_cellsInSeg m) then Inl OutOfRange
           else
             let cells = sort_key (\<lambda>c. centerX (m_nodes m c)) (m_cellsInSeg m ! nat segId);
                 seg0 = (m_segments m ! segPtr)\<lparr>seg_util := 0\<rparr>;
                 seg1 = foldl (\<lambda>sg c. addUtil (ceilWidth (m_nodes m c)) sg) seg0 cells
             in Inr (m\<lparr>m_cellsInSeg := (m_cellsInSeg m)[nat segId := cells],
                       m_segments := (m_segments m)[segPtr := seg1]\<rparr>))"

text \<open>
  \<^verbatim>\<open>acceptMove\<close>: for each staged entry in turn, the cell leaves all its current
  segments, takes its new position, and enters all its new segments.
\<close>

fun removeFromSegs :: "nat \<Rightarrow> int list \<Rightarrow> DetailedMgr \<Rightarrow> error + DetailedMgr" where
  "removeFromSegs nd [] m = Inr m"
| "removeFromSegs nd (s # ss) m =
     (case removeCellFromSegment nd s m of
        Inl e \<Rightarrow> Inl e
      | Inr m' \<Rightarrow> removeFromSegs nd ss m')"

fun addToSegs :: "nat \<Rightarrow> int list \<Rightarrow> DetailedMgr \<Rightarrow> error + DetailedMgr" where
  "addToSegs nd [] m = Inr m"
| "addToSegs nd (s # ss) m =
     (case addCellToSegment nd s m of
        Inl e \<Rightarrow> Inl e
      | Inr m' \<Rightarrow> addToSegs nd ss m')"

definition setPosition :: "nat \<Rightarrow> int \<Rightarrow> int \<Rightarrow> DetailedMgr \<Rightarrow> DetailedMgr" where
  "setPosition nd x y m =
     m\<lparr>m_nodes := (m_nodes m)(nd := (m_nodes m nd)\<lparr>nd_left := x, nd_bottom := y\<rparr>)\<rparr>"

definition moveIndexOk :: "DetailedMgr \<Rightarrow> nat \<Rightarrow> bool" where
  "moveIndexOk m i \<longleftrightarrow>
     i < length (m_movedNodes m) \<and> i < length (m_curSeg m) \<and> i < length (m_newSeg m) \<and>
     i < length (m_newLeft m) \<and> i < length (m_newBottom m)"

fun acceptMove_loop :: "nat list \<Rightarrow> DetailedMgr \<Rightarrow> error + DetailedMgr" where
  "acceptMove_loop [] m = Inr m"
| "acceptMove_loop (i # rest) m =
     (if \<not> moveIndexOk m i then Inl OutOfRange
      else case m_movedNodes m ! i of
        None \<Rightarrow> Inl OutOfRange
      | Some ndi \<Rightarrow>
          (case removeFromSegs ndi (m_curSeg m ! i) m of
             Inl e \<Rightarrow> Inl e
           | Inr m1 \<Rightarrow>
               (case addToSegs ndi (m_newSeg m1 ! i)
                       (setPosition ndi (m_newLeft m1 ! i) (m_newBottom m1 ! i) m1) of
                  Inl e \<Rightarrow> Inl e
                | Inr m3 \<Rightarrow> acceptMove_loop rest m3)))"

definition acceptMove :: "DetailedMgr \<Rightarrow> error + DetailedMgr" where
  "acceptMove m = acceptMove_loop [0..<m_nMoved m] m"

section \<open>Site alignment and neighbour shifts\<close>

text \<open>
  \<^verbatim>\<open>alignPos\<close>: the site-aligned left edge in \<open>[xl, xr - w]\<close> closest to the target
  (sites of row 0; the quotient is C integer division, which truncates).  The result
  \<open>Inr None\<close> is the return value false, \<open>Inr (Some x)\<close> is true with the new target.
\<close>

definition alignPos :: "Architecture \<Rightarrow> int \<Rightarrow> int \<Rightarrow> int \<Rightarrow> int \<Rightarrow> error + int option" where
  "alignPos a w xi xl xr0 =
     (if arch_rows a = [] then Inl OutOfRange
      else
        let originX = row_left (getRow a 0);
            siteSpacing = row_siteSpacing (getRow a 0)
        in if siteSpacing = 0 then Inl DivisionByZero
           else
             let xr = xr0 - w;
                 xp = max xl (min xr xi);
                 ix = (xp - originX) sdiv siteSpacing;
                 xp1 = originX + ix * siteSpacing;
                 xp2 = (if xp1 < xl then xp1 + siteSpacing
                        else if xp1 > xr then xp1 - siteSpacing else xp1)
             in if xp2 < xl \<or> xp2 > xr then Inr None else Inr (Some xp2))"

text \<open>\<^verbatim>\<open>std::find\<close> followed by the distance from \<^verbatim>\<open>begin()\<close>.\<close>

definition index_of :: "'a \<Rightarrow> 'a list \<Rightarrow> nat" where
  "index_of x xs = length (takeWhile (\<lambda>y. y \<noteq> x) xs)"

text \<open>
  The loop of \<^verbatim>\<open>shiftRightHelper\<close>: cell \<open>ndi\<close> sits at \<open>xj\<close>, cell \<open>ndr\<close> is the
  cell at position \<open>ix\<close> of the segment's list, \<open>n\<close> is the last position.
\<close>

function shiftRight_loop ::
  "int \<Rightarrow> nat \<Rightarrow> int \<Rightarrow> int \<Rightarrow> nat \<Rightarrow> nat \<Rightarrow> int \<Rightarrow> nat \<Rightarrow> DetailedMgr \<Rightarrow> error + (bool \<times> DetailedMgr)"
  where
  "shiftRight_loop sj n originX siteSpacing ndi ndr xj ix m =
     (let a = m_arch m;
          wi = nd_width (m_nodes m ndi);
          sp = arch_getCellSpacing a (Some ndi) (Some ndr);
          r = m_nodes m ndr
      in if ix \<le> n \<and> nd_left r < xj + wi + sp then
           if arch_getCellHeightInRows a ndr \<noteq> 1 then Inr (False, m)
           else if siteSpacing = 0 then Inl DivisionByZero
           else
             let xj1 = xj + wi + sp;
                 site = (xj1 - originX) sdiv siteSpacing;
                 sx = originX + site * siteSpacing;
                 sx1 = (if xj1 \<noteq> sx \<and> xj1 > sx then sx + siteSpacing else sx);
                 xj2 = (if xj1 \<noteq> sx \<and> xj1 \<noteq> sx1 \<and> xj1 < sx1 then sx1 else xj1);
                 res = addToMoveList ndr (nd_left r) (nd_bottom r) sj xj2 (nd_bottom r) sj m
             in if \<not> fst res then Inr (False, snd res)
                else if xj2 + nd_width r + arch_getCellSpacing a (Some ndr) None
                          > seg_maxX (m_segments m ! nat sj)
                then Inr (False, snd res)
                else if ix = n then Inr (True, snd res)
                else shiftRight_loop sj n originX siteSpacing ndr
                       (m_cellsInSeg m ! nat sj ! (ix + 1)) xj2 (ix + 1) (snd res)
         else Inr (True, m))"
  by pat_completeness auto
termination
  by (relation "measure (\<lambda>(sj, n, originX, siteSpacing, ndi, ndr, xj, ix, m). n - ix)") auto

definition shiftRightHelper ::
  "nat \<Rightarrow> int \<Rightarrow> int \<Rightarrow> nat \<Rightarrow> DetailedMgr \<Rightarrow> error + (bool \<times> DetailedMgr)" where
  "shiftRightHelper ndi xj sj ndr m =
     (if \<not> valid_ix sj (m_cellsInSeg m) then Inl OutOfRange
      else
        let cells = m_cellsInSeg m ! nat sj
        in if ndr \<notin> set cells then Inr (False, m)
           else if \<not> valid_ix sj (m_segments m) then Inl OutOfRange
           else
             let rj = seg_rowId (m_segments m ! nat sj)
             in if \<not> valid_ix rj (arch_rows (m_arch m)) then Inl OutOfRange
                else shiftRight_loop sj (length cells - 1)
                       (row_left (getRow (m_arch m) rj))
                       (row_siteSpacing (getRow (m_arch m) rj))
                       ndi ndr xj (index_of ndr cells) m)"

text \<open>The loop of \<^verbatim>\<open>shiftLeftHelper\<close>; it runs down to position 0.\<close>

function shiftLeft_loop ::
  "int \<Rightarrow> int \<Rightarrow> int \<Rightarrow> nat \<Rightarrow> nat \<Rightarrow> int \<Rightarrow> nat \<Rightarrow> DetailedMgr \<Rightarrow> error + (bool \<times> DetailedMgr)"
  where
  "shiftLeft_loop sj originX siteSpacing ndi ndl xj ix m =
     (let a = m_arch m;
          sp = arch_getCellSpacing a (Some ndl) (Some ndi);
          l = m_nodes m ndl
      in if getRight l + sp > xj then
           if arch_getCellHeightInRows a ndl \<noteq> 1 then Inr (False, m)
           else if siteSpacing = 0 then Inl DivisionByZero
           else
             let xj1 = xj - sp - nd_width l;
                 site = (xj1 - originX) sdiv siteSpacing;
                 sx = originX + site * siteSpacing;
                 xj2 = (if xj1 \<noteq> sx \<and> xj1 > sx then sx else xj1);
                 res = addToMoveList ndl (nd_left l) (nd_bottom l) sj xj2 (nd_bottom l) sj m
             in if \<not> fst res then Inr (False, snd res)
                else if xj2 - arch_getCellSpacing a None (Some ndl)
                          < seg_minX (m_segments m ! nat sj)
                then Inr (False, snd res)
                else if ix = 0 then Inr (True, snd res)
                else shiftLeft_loop sj originX siteSpacing ndl
                       (m_cellsInSeg m ! nat sj ! (ix - 1)) xj2 (ix - 1) (snd res)
         else Inr (True, m))"
  by pat_completeness auto
termination
  by (relation "measure (\<lambda>(sj, originX, siteSpacing, ndi, ndl, xj, ix, m). ix)") auto

definition shiftLeftHelper ::
  "nat \<Rightarrow> int \<Rightarrow> int \<Rightarrow> nat \<Rightarrow> DetailedMgr \<Rightarrow> error + (bool \<times> DetailedMgr)" where
  "shiftLeftHelper ndi xj sj ndl m =
     (if \<not> valid_ix sj (m_cellsInSeg m) then Inl OutOfRange
      else
        let cells = m_cellsInSeg m ! nat sj
        in if ndl \<notin> set cells then Inr (False, m)
           else if \<not> valid_ix sj (m_segments m) then Inl OutOfRange
           else
             let rj = seg_rowId (m_segments m ! nat sj)
             in if \<not> valid_ix rj (arch_rows (m_arch m)) then Inl OutOfRange
                else shiftLeft_loop sj
                       (row_left (getRow (m_arch m) rj))
                       (row_siteSpacing (getRow (m_arch m) rj))
                       ndi ndl xj (index_of ndl cells) m)"

section \<open>The shift solver\<close>

text \<open>
  A \<^verbatim>\<open>for\<close> loop whose body may end the run: the body is applied to each element in
  turn, and the first error is the result.
\<close>

fun foldE :: "('a \<Rightarrow> 's \<Rightarrow> error + 's) \<Rightarrow> 'a list \<Rightarrow> 's \<Rightarrow> error + 's" where
  "foldE f [] s = Inr s"
| "foldE f (x # xs) s = (case f x s of Inl e \<Rightarrow> Inl e | Inr s' \<Rightarrow> foldE f xs s')"

text \<open>
  Total costs are doubles that start at \<^verbatim>\<open>std::numeric_limits<double>::max()\<close>; every
  other value is a sum of integer distances.  \<^term>\<open>None\<close> stands for that maximum: it
  is below nothing, every integer is below it, and adding an integer distance to it
  leaves it unchanged (the sum rounds back to the maximum).
\<close>

definition lt_cost :: "int option \<Rightarrow> int option \<Rightarrow> bool" where
  "lt_cost a b = (case a of None \<Rightarrow> False | Some x \<Rightarrow> (case b of None \<Rightarrow> True | Some y \<Rightarrow> x < y))"

definition add_cost :: "int option \<Rightarrow> int \<Rightarrow> int option" where
  "add_cost a c = (case a of None \<Rightarrow> None | Some x \<Rightarrow> Some (x + c))"

type_synonym shiftTables = "(int \<Rightarrow> int \<Rightarrow> int option) \<times> (int \<Rightarrow> int \<Rightarrow> int \<times> int)"

text \<open>Cell widths in sites, the spacing to the next cell folded in.\<close>

fun shift_widths :: "DetailedMgr \<Rightarrow> int \<Rightarrow> nat list \<Rightarrow> int list" where
  "shift_widths m s [] = []"
| "shift_widths m s [c] = [\<lceil>rat_of_int (nd_width (m_nodes m c)) / rat_of_int s\<rceil>]"
| "shift_widths m s (c # d # cs) =
     \<lceil>rat_of_int (nd_width (m_nodes m c) + arch_getCellSpacing (m_arch m) (Some c) (Some d))
        / rat_of_int s\<rceil> # shift_widths m s (d # cs)"

fun sites_left :: "int \<Rightarrow> int list \<Rightarrow> int list" where
  "sites_left k [] = []"
| "sites_left k (w # ws) = k # sites_left (k + w) ws"

text \<open>The rightmost sites, computed from the last cell to the first.\<close>

fun sites_right_rev :: "int \<Rightarrow> int list \<Rightarrow> int list" where
  "sites_right_rev k [] = []"
| "sites_right_rev k (w # ws) = (k - w) # sites_right_rev (k - w) ws"

definition sites_right :: "int \<Rightarrow> int list \<Rightarrow> int list" where
  "sites_right k swid = rev (sites_right_rev k (rev swid))"

definition shift_site_ok :: "int \<Rightarrow> int list \<Rightarrow> int list \<Rightarrow> int \<Rightarrow> int \<Rightarrow> bool" where
  "shift_site_ok i0 site_l site_r i j \<longleftrightarrow>
     \<not> (i0 + i - 1 < site_l ! nat (j - 1) \<or> i0 + i - 1 > site_r ! nat (j - 1))"

definition shift_cost ::
  "int \<Rightarrow> int \<Rightarrow> int \<Rightarrow> int list \<Rightarrow> int list \<Rightarrow> int list \<Rightarrow> int \<Rightarrow> int \<Rightarrow> int" where
  "shift_cost originX siteSpacing i0 site_l site_r targetLeft i j =
     (if shift_site_ok i0 site_l site_r i j
      then \<bar>originX + (i0 + i - 1) * siteSpacing - targetLeft ! nat (j - 1)\<bar>
      else 0)"

definition shift_relax :: "int \<Rightarrow> int \<Rightarrow> int \<times> int \<Rightarrow> int option \<Rightarrow> shiftTables \<Rightarrow> shiftTables" where
  "shift_relax i j p c t =
     (if lt_cost c (fst t i j)
      then ((fst t)(i := (fst t i)(j := c)), (snd t)(i := (snd t i)(j := p)))
      else t)"

definition shift_fill_step ::
  "int \<Rightarrow> int \<Rightarrow> int \<Rightarrow> int list \<Rightarrow> (int \<Rightarrow> int \<Rightarrow> int) \<Rightarrow> int \<Rightarrow> int \<Rightarrow> shiftTables
     \<Rightarrow> error + shiftTables" where
  "shift_fill_step i0 i1 nsites swid cost j i t =
     (let prev_wid = (if j - 1 = 0 then 1 else swid ! nat (j - 2));
          curr_wid = swid ! nat (j - 1);
          site_id = i0 + i - 1;
          t1 = shift_relax i j (i - 1, j) (fst t (i - 1) j) t;
          ii = i - prev_wid;
          jj = j - 1
      in if \<not> (ii < 0 \<or> site_id + curr_wid - 1 > i1) then
           if ii > nsites then Inl OutOfRange
           else Inr (shift_relax i j (ii, jj) (add_cost (fst t1 ii jj) (cost i j)) t1)
         else Inr t1)"

definition shift_fill ::
  "int \<Rightarrow> int \<Rightarrow> int \<Rightarrow> int \<Rightarrow> int list \<Rightarrow> (int \<Rightarrow> int \<Rightarrow> int) \<Rightarrow> error + shiftTables" where
  "shift_fill i0 i1 nsites ncells swid cost =
     foldE (\<lambda>j. foldE (shift_fill_step i0 i1 nsites swid cost j) [1..nsites]) [1..ncells]
       ((\<lambda>i j. None)(0 := (\<lambda>j. None)(0 := Some 0)), (\<lambda>i j. (-1, -1)))"

text \<open>The test: walk the predecessors from \<open>(nsites, ncells)\<close>; is \<open>(0, 0)\<close> on the way?\<close>

partial_function (option) shift_reaches ::
  "(int \<Rightarrow> int \<Rightarrow> int \<times> int) \<Rightarrow> int \<times> int \<Rightarrow> bool \<Rightarrow> bool option" where
  "shift_reaches pv cur okay =
     (if fst cur \<noteq> -1 \<and> snd cur \<noteq> -1
      then shift_reaches pv (pv (fst cur) (snd cur)) (okay \<or> (fst cur = 0 \<and> snd cur = 0))
      else Some okay)"

declare shift_reaches.simps [code]

text \<open>The placement: the same walk, writing a position where the cell index changes.\<close>

partial_function (option) shift_place ::
  "(int \<Rightarrow> int \<Rightarrow> int \<times> int) \<Rightarrow> int \<Rightarrow> int \<Rightarrow> int \<Rightarrow> int \<times> int \<Rightarrow> int list
     \<Rightarrow> (error + int list) option" where
  "shift_place pv i0 originX siteSpacing cur posLeft =
     (if fst cur \<noteq> -1 \<and> snd cur \<noteq> -1 then
        if fst cur = 0 \<and> snd cur = 0 then Some (Inr posLeft)
        else if snd cur \<noteq> snd (pv (fst cur) (snd cur)) then
          if \<not> valid_ix (snd cur - 1) posLeft then Some (Inl OutOfRange)
          else shift_place pv i0 originX siteSpacing (pv (fst cur) (snd cur))
                 (posLeft[nat (snd cur - 1) := originX + (i0 + fst cur - 1) * siteSpacing])
        else shift_place pv i0 originX siteSpacing (pv (fst cur) (snd cur)) posLeft
      else Some (Inr posLeft))"

declare shift_place.simps [code]

definition shift ::
  "DetailedMgr \<Rightarrow> nat list \<Rightarrow> int list \<Rightarrow> int list \<Rightarrow> int \<Rightarrow> int \<Rightarrow> int \<Rightarrow> int
     \<Rightarrow> error + (bool \<times> int list)" where
  "shift m cells targetLeft posLeft leftLimit rightLimit segId rowId =
     (if \<not> valid_ix rowId (arch_rows (m_arch m)) then Inl OutOfRange
      else
        let originX = row_left (getRow (m_arch m) rowId);
            siteSpacing = row_siteSpacing (getRow (m_arch m) rowId);
            siteWidth = row_siteWidth (getRow (m_arch m) rowId);
            ncells = int (length cells)
        in if siteSpacing = 0 then Inl DivisionByZero
           else
             let i0a = (leftLimit - originX) sdiv siteSpacing;
                 i0 = (if originX + i0a * siteSpacing < leftLimit then i0a + 1 else i0a);
                 i1a = (rightLimit - originX) sdiv siteSpacing;
                 i1 = (if originX + i1a * siteSpacing + siteWidth \<ge> rightLimit
                       then i1a - 1 else i1a);
                 nsites = i1 - i0 + 1;
                 swid = shift_widths m siteSpacing cells;
                 rsites = sum_list swid
             in if rsites > nsites then Inr (False, posLeft)
                else
                  let site_l = sites_left i0 swid;
                      site_r = sites_right (i1 + 1) swid
                  in if list_ex (\<lambda>k. site_r ! k < site_l ! k) [0..<length cells]
                     then Inr (False, posLeft)
                     else if nsites < 0 then Inl OutOfRange
                     else if list_ex (\<lambda>j. list_ex (\<lambda>i. shift_site_ok i0 site_l site_r i j
                                  \<and> \<not> valid_ix (j - 1) targetLeft) [1..nsites]) [1..ncells]
                     then Inl OutOfRange
                     else
                       (case shift_fill i0 i1 nsites ncells swid
                               (shift_cost originX siteSpacing i0 site_l site_r targetLeft) of
                          Inl e \<Rightarrow> Inl e
                        | Inr t \<Rightarrow>
                            (case shift_reaches (snd t) (nsites, ncells) False of
                               None \<Rightarrow> Inl Diverges
                             | Some okay \<Rightarrow>
                                 if \<not> okay then Inr (False, posLeft)
                                 else
                                   (case shift_place (snd t) i0 originX siteSpacing
                                           (nsites, ncells) posLeft of
                                      None \<Rightarrow> Inl Diverges
                                    | Some (Inl e) \<Rightarrow> Inl e
                                    | Some (Inr p) \<Rightarrow> Inr (True, p)))))"

text \<open>
  The placements the solver chooses among, in the words of its description: one position
  per cell, each on the site grid of the row and not left of \<open>leftLimit\<close>, each cell
  with its width in sites (spacing folded in) ending where the next cell starts or, for
  the last cell, at \<open>rightLimit\<close> at the latest.
\<close>

definition shiftPlacementOk ::
  "DetailedMgr \<Rightarrow> nat list \<Rightarrow> int \<Rightarrow> int \<Rightarrow> int \<Rightarrow> int list \<Rightarrow> bool" where
  "shiftPlacementOk m cells leftLimit rightLimit rowId pos \<longleftrightarrow>
     (let originX = row_left (getRow (m_arch m) rowId);
          siteSpacing = row_siteSpacing (getRow (m_arch m) rowId);
          swid = shift_widths m siteSpacing cells
      in length pos = length cells
         \<and> list_all (\<lambda>k. (pos ! k - originX) mod siteSpacing = 0
                         \<and> leftLimit \<le> pos ! k
                         \<and> pos ! k + (swid ! k) * siteSpacing
                              \<le> (if k + 1 < length cells then pos ! (k + 1) else rightLimit))
             [0..<length cells])"

text \<open>The total absolute displacement of a placement from the targets.\<close>

definition totalDisplacement :: "int list \<Rightarrow> int list \<Rightarrow> int" where
  "totalDisplacement targetLeft pos = (\<Sum>(t, p) \<leftarrow> zip targetLeft pos. \<bar>p - t\<bar>)"

section \<open>Candidate moves\<close>

text \<open>
  Each candidate operation clears the move list, validates the proposal against the
  state, and stages the moves; the result is the return value together with the manager.
\<close>

definition fixTargetY :: "Architecture \<Rightarrow> int \<Rightarrow> int \<Rightarrow> int" where
  "fixTargetY a r yj =
     (if \<bar>yj - row_bottom (getRow a r)\<bar> \<noteq> 0 then row_bottom (getRow a r) else yj)"

text \<open>
  The common tail of the single-height moves: align the target in \<open>[lx, rx]\<close>, stage
  the cell, then run the neighbour shifts (each takes the aligned target).
\<close>

definition alignAndStage ::
  "nat \<Rightarrow> int \<Rightarrow> int \<Rightarrow> int \<Rightarrow> int \<Rightarrow> int \<Rightarrow> int
     \<Rightarrow> (int \<Rightarrow> DetailedMgr \<Rightarrow> error + (bool \<times> DetailedMgr)) list
     \<Rightarrow> DetailedMgr \<Rightarrow> error + (bool \<times> DetailedMgr)" where
  "alignAndStage ndi si xj yj sj lx rx shifts m =
     (case alignPos (m_arch m) (nd_width (m_nodes m ndi)) xj lx rx of
        Inl e \<Rightarrow> Inl e
      | Inr None \<Rightarrow> Inr (False, m)
      | Inr (Some x) \<Rightarrow>
          (let res = addToMoveList ndi (nd_left (m_nodes m ndi)) (nd_bottom (m_nodes m ndi))
                       si x yj sj m
           in if \<not> fst res then Inr (False, snd res)
              else foldE (\<lambda>f r. if fst r then f x (snd r) else Inr r) shifts (True, snd res)))"

definition tryMove1 ::
  "nat \<Rightarrow> int \<Rightarrow> int \<Rightarrow> int \<Rightarrow> int \<Rightarrow> int \<Rightarrow> int \<Rightarrow> DetailedMgr
     \<Rightarrow> error + (bool \<times> DetailedMgr)" where
  "tryMove1 ndi xi yi si xj yj0 sj m0 =
     (let m = clearMoveList m0;
          a = m_arch m;
          nd = m_nodes m ndi;
          spanned = arch_getCellHeightInRows a ndi
      in if sj = si \<or> sj = -1 then Inr (False, m)
         else if \<not> valid_ix sj (m_segments m) then Inl OutOfRange
         else if nd_regionId nd \<noteq> seg_regId (m_segments m ! nat sj) \<or> spanned \<noteq> 1
         then Inr (False, m)
         else if \<not> valid_ix (seg_rowId (m_segments m ! nat sj)) (arch_rows a)
                 \<or> \<not> valid_ix sj (m_cellsInSeg m) then Inl OutOfRange
         else
           let segPtr = m_segments m ! nat sj;
               yj = fixTargetY a (seg_rowId segPtr) yj0;
               cells = m_cellsInSeg m ! nat sj;
               it = lower_bound (m_nodes m) cells (rat_of_int xj);
               ndr = (if cells \<noteq> [] \<and> it < length cells then Some (cells ! it) else None);
               ndl = (if cells = [] then None
                      else if it = length cells then Some (last cells)
                      else if it \<noteq> 0 then Some (cells ! (it - 1)) else None);
               sp = arch_getCellSpacing a
           in case (ndl, ndr) of
                (None, None) \<Rightarrow>
                  if nd_width nd + sp None (Some ndi) + sp (Some ndi) None + seg_util segPtr
                       > seg_getWidth segPtr
                  then Inr (False, m)
                  else alignAndStage ndi si xj yj sj
                         (seg_minX segPtr + sp None (Some ndi))
                         (seg_maxX segPtr - sp (Some ndi) None) [] m
              | (Some l, None) \<Rightarrow>
                  if nd_width nd + sp (Some l) (Some ndi) + sp (Some ndi) None + seg_util segPtr
                       > seg_getWidth segPtr
                  then Inr (False, m)
                  else alignAndStage ndi si xj yj sj
                         (getRight (m_nodes m l) + sp (Some l) (Some ndi))
                         (seg_maxX segPtr - sp (Some ndi) None)
                         [\<lambda>x. shiftLeftHelper ndi x sj l] m
              | (None, Some r) \<Rightarrow>
                  if nd_width nd + sp None (Some ndi) + sp (Some ndi) (Some r) + seg_util segPtr
                       > seg_getWidth segPtr
                  then Inr (False, m)
                  else alignAndStage ndi si xj yj sj
                         (seg_minX segPtr + sp None (Some ndi))
                         (nd_left (m_nodes m r) - sp (Some ndi) (Some r))
                         [\<lambda>x. shiftRightHelper ndi x sj r] m
              | (Some l, Some r) \<Rightarrow>
                  if nd_width nd + sp (Some l) (Some ndi) + sp (Some ndi) (Some r)
                       - sp (Some l) (Some r) + seg_util segPtr
                       > seg_getWidth segPtr
                  then Inr (False, m)
                  else alignAndStage ndi si xj yj sj
                         (getRight (m_nodes m l) + sp (Some l) (Some ndi))
                         (nd_left (m_nodes m r) - sp (Some ndi) (Some r))
                         [\<lambda>x. shiftRightHelper ndi x sj r, \<lambda>x. shiftLeftHelper ndi x sj l] m)"

definition tryMove2 ::
  "nat \<Rightarrow> int \<Rightarrow> int \<Rightarrow> int \<Rightarrow> int \<Rightarrow> int \<Rightarrow> int \<Rightarrow> DetailedMgr
     \<Rightarrow> error + (bool \<times> DetailedMgr)" where
  "tryMove2 ndi xi yi si xj yj0 sj m0 =
     (let m = clearMoveList m0;
          a = m_arch m;
          nd = m_nodes m ndi;
          spanned = arch_getCellHeightInRows a ndi
      in if sj \<noteq> si \<or> sj = -1 then Inr (False, m)
         else if \<not> valid_ix sj (m_segments m) then Inl OutOfRange
         else if nd_regionId nd \<noteq> seg_regId (m_segments m ! nat sj) \<or> spanned \<noteq> 1
         then Inr (False, m)
         else if \<not> valid_ix (seg_rowId (m_segments m ! nat sj)) (arch_rows a)
                 \<or> \<not> valid_ix sj (m_cellsInSeg m) then Inl OutOfRange
         else
           let segPtr = m_segments m ! nat sj;
               yj = fixTargetY a (seg_rowId segPtr) yj0;
               cells = m_cellsInSeg m ! nat sj;
               it = lower_bound (m_nodes m) cells (rat_of_int xj);
               sp = arch_getCellSpacing a
           in if cells = [] then Inr (False, m)
              else
                let ix_j = (if it = length cells then length cells - 1 else it);
                    ndj = cells ! ix_j;
                    prv = (if ix_j = 0 then None else Some (cells ! (ix_j - 1)));
                    nxt = (if ix_j = length cells - 1 then None else Some (cells ! (ix_j + 1)));
                    lx1 = (case prv of
                             Some p \<Rightarrow> getRight (m_nodes m p) + sp (Some p) (Some ndi)
                           | None \<Rightarrow> seg_minX segPtr + sp None (Some ndi));
                    rx1 = nd_left (m_nodes m ndj) - sp (Some ndi) (Some ndj);
                    lx2 = getRight (m_nodes m ndj) + sp (Some ndj) (Some ndi);
                    rx2 = (case nxt of
                             Some q \<Rightarrow> nd_left (m_nodes m q) - sp (Some ndi) (Some q)
                           | None \<Rightarrow> seg_maxX segPtr - sp (Some ndi) None)
                in if nd_width nd \<le> rx1 - lx1 then alignAndStage ndi si xj yj sj lx1 rx1 [] m
                   else if nd_width nd \<le> rx2 - lx2
                   then alignAndStage ndi si xj yj sj lx2 rx2 [] m
                   else Inr (False, m))"

text \<open>
  \<^verbatim>\<open>tryMove3\<close>.  The bottom row is lowered while \<open>rb + spanned\<close> is not below the number
  of rows; the row just read exists, so the sum stays non-negative and its conversion to
  the unsigned type of the row count changes nothing.
\<close>

function lowerRow :: "int \<Rightarrow> int \<Rightarrow> int \<Rightarrow> int" where
  "lowerRow rb spanned numRows =
     (if rb + spanned \<ge> numRows then lowerRow (rb - 1) spanned numRows else rb)"
  by pat_completeness auto
termination
  by (relation "measure (\<lambda>(rb, spanned, numRows). nat (rb + spanned - numRows + 1))") auto

text \<open>The first segment of a row with the cell's region whose x-interval holds the target.\<close>

fun findSegAt :: "DetailedSeg list \<Rightarrow> int \<Rightarrow> int \<Rightarrow> nat list \<Rightarrow> error + int option" where
  "findSegAt segs reg xj [] = Inr None"
| "findSegAt segs reg xj (p # ps) =
     (if p \<ge> length segs then Inl OutOfRange
      else if seg_regId (segs ! p) = reg \<and> xj \<ge> seg_minX (segs ! p) \<and> xj \<le> seg_maxX (segs ! p)
      then Inr (Some (seg_segId (segs ! p)))
      else findSegAt segs reg xj ps)"

text \<open>The segments of the rows from the bottom row up; the loop breaks at the first row without one.\<close>

fun collectSegs :: "DetailedMgr \<Rightarrow> int \<Rightarrow> int \<Rightarrow> int list \<Rightarrow> error + int list" where
  "collectSegs m reg xj [] = Inr []"
| "collectSegs m reg xj (r # rs) =
     (if \<not> valid_ix r (m_segsInRow m) then Inl OutOfRange
      else case findSegAt (m_segments m) reg xj (m_segsInRow m ! nat r) of
             Inl e \<Rightarrow> Inl e
           | Inr None \<Rightarrow> Inr []
           | Inr (Some s) \<Rightarrow>
               (case collectSegs m reg xj rs of Inl e \<Rightarrow> Inl e | Inr ss \<Rightarrow> Inr (s # ss)))"

text \<open>
  The gap around the target in one segment, the moving cell itself skipped on the left:
  \<open>Inr None\<close> is the return value false, \<open>Inr (Some (lx, rx))\<close> the gap.
\<close>

definition gapInSeg :: "DetailedMgr \<Rightarrow> nat \<Rightarrow> int \<Rightarrow> int \<Rightarrow> error + (int \<times> int) option" where
  "gapInSeg m ndi xj s =
     (if \<not> valid_ix s (m_segments m) then Inl OutOfRange
      else
        let segPtr = m_segments m ! nat s;
            segId = seg_segId segPtr
        in if \<not> valid_ix segId (m_cellsInSeg m) then Inl OutOfRange
           else
             let cells = m_cellsInSeg m ! nat segId;
                 it = lower_bound (m_nodes m) cells (rat_of_int xj);
                 rite = (if cells \<noteq> [] \<and> it < length cells then Some (cells ! it) else None);
                 left = (if cells = [] then None
                         else if it = length cells then Some (last cells)
                         else if it = 0 then None
                         else if cells ! (it - 1) \<noteq> ndi then Some (cells ! (it - 1))
                         else if it - 1 \<noteq> 0 then Some (cells ! (it - 2))
                         else None);
                 sp = arch_getCellSpacing (m_arch m)
             in if left = Some ndi \<or> rite = Some ndi then Inr None
                else
                  let lx = (case left of
                              None \<Rightarrow> seg_minX segPtr
                            | Some l \<Rightarrow> getRight (m_nodes m l) + sp (Some l) (Some ndi));
                      rx = (case rite of
                              None \<Rightarrow> seg_maxX segPtr
                            | Some r \<Rightarrow> nd_left (m_nodes m r) - sp (Some ndi) (Some r))
                  in if nd_width (m_nodes m ndi) \<le> rx - lx then Inr (Some (lx, rx))
                     else Inr None)"

fun gapOverSegs ::
  "DetailedMgr \<Rightarrow> nat \<Rightarrow> int \<Rightarrow> int list \<Rightarrow> int \<times> int \<Rightarrow> error + (int \<times> int) option" where
  "gapOverSegs m ndi xj [] g = Inr (Some g)"
| "gapOverSegs m ndi xj (s # ss) g =
     (case gapInSeg m ndi xj s of
        Inl e \<Rightarrow> Inl e
      | Inr None \<Rightarrow> Inr None
      | Inr (Some (lx, rx)) \<Rightarrow> gapOverSegs m ndi xj ss (max (fst g) lx, min (snd g) rx))"

definition INT_MIN :: int where "INT_MIN = - (2 ^ 31)"

definition INT_MAX :: int where "INT_MAX = 2 ^ 31 - 1"

text \<open>The rows \<open>rb .. rt\<close> that \<^verbatim>\<open>tryMove3\<close> derives from the target segment.\<close>

definition tryMove3_rb :: "DetailedMgr \<Rightarrow> nat \<Rightarrow> int \<Rightarrow> int" where
  "tryMove3_rb m ndi sj =
     lowerRow (seg_rowId (m_segments m ! nat sj))
       (arch_getCellHeightInRows (m_arch m) ndi) (int (length (arch_rows (m_arch m))))"

definition tryMove3 ::
  "nat \<Rightarrow> int \<Rightarrow> int \<Rightarrow> int \<Rightarrow> int \<Rightarrow> int \<Rightarrow> int \<Rightarrow> DetailedMgr
     \<Rightarrow> error + (bool \<times> DetailedMgr)" where
  "tryMove3 ndi xi yi si xj yj0 sj m0 =
     (let m = clearMoveList m0;
          a = m_arch m;
          nd = m_nodes m ndi;
          spanned = arch_getCellHeightInRows a ndi
      in if spanned \<le> 1 then Inr (False, m)
         else if \<not> ndi < length (m_reverseCellToSegs m) then Inl OutOfRange
         else if size_ne (length (m_reverseCellToSegs m ! ndi)) spanned then Inr (False, m)
         else if \<not> valid_ix sj (m_segments m) then Inl OutOfRange
         else if \<not> valid_ix (seg_rowId (m_segments m ! nat sj)) (arch_rows a) then Inl OutOfRange
         else
           let rb = tryMove3_rb m ndi sj;
               rt = rb + spanned - 1
           in if \<not> valid_ix rb (arch_rows a) then Inl OutOfRange
              else if \<not> arch_power_compatible a ndi (nat rb) then Inr (False, m)
              else
                (case collectSegs m (nd_regionId nd) xj [rb..rt] of
                   Inl e \<Rightarrow> Inl e
                 | Inr segs \<Rightarrow>
                     if size_ne (length segs) spanned then Inr (False, m)
                     else
                       (case gapOverSegs m ndi xj segs (INT_MIN, INT_MAX) of
                          Inl e \<Rightarrow> Inl e
                        | Inr None \<Rightarrow> Inr (False, m)
                        | Inr (Some (xmin, xmax)) \<Rightarrow>
                            if nd_width nd \<le> xmax - xmin then
                              (case alignPos a (nd_width nd) xj xmin xmax of
                                 Inl e \<Rightarrow> Inl e
                               | Inr None \<Rightarrow> Inr (False, m)
                               | Inr (Some x) \<Rightarrow>
                                   if list_ex (\<lambda>p. p \<ge> length (m_segments m))
                                        (m_reverseCellToSegs m ! ndi)
                                   then Inl OutOfRange
                                   else Inr (addToMoveListMulti ndi (nd_left nd) (nd_bottom nd)
                                          (map (\<lambda>p. seg_segId (m_segments m ! p))
                                             (m_reverseCellToSegs m ! ndi))
                                          x (row_bottom (getRow a rb)) segs m))
                            else Inr (False, m))))"

text \<open>
  \<^verbatim>\<open>trySwap1\<close>.  The gap left by the cell at position \<open>ix\<close> of a segment's list, for a
  cell \<open>c\<close> that is to take its place: from the right edge of the previous cell (or the
  segment's start) to the left edge of the next cell (or the segment's end), less the
  spacing \<open>c\<close> needs on each side.
\<close>

definition neighbourAt :: "nat list \<Rightarrow> nat \<Rightarrow> nat option \<times> nat option" where
  "neighbourAt cells ix =
     (if ix = 0 then None else Some (cells ! (ix - 1)),
      if ix = length cells - 1 then None else Some (cells ! (ix + 1)))"

definition gapBounds ::
  "DetailedMgr \<Rightarrow> int \<Rightarrow> int \<Rightarrow> nat option \<Rightarrow> nat option \<Rightarrow> nat \<Rightarrow> nat \<Rightarrow> int \<times> int" where
  "gapBounds m sl sr prv nxt cl cr =
     (let sp = arch_getCellSpacing (m_arch m);
          rx = (case nxt of None \<Rightarrow> seg_maxX (m_segments m ! nat sr)
                | Some q \<Rightarrow> nd_left (m_nodes m q)) - sp (Some cr) nxt;
          lx = (case prv of None \<Rightarrow> seg_minX (m_segments m ! nat sl)
                | Some p \<Rightarrow> getRight (m_nodes m p)) + sp prv (Some cl)
      in (lx, rx))"

definition stageSwap ::
  "nat \<Rightarrow> nat \<Rightarrow> int \<Rightarrow> int \<Rightarrow> int \<Rightarrow> int \<Rightarrow> DetailedMgr \<Rightarrow> bool \<times> DetailedMgr" where
  "stageSwap ndi ndj si sj xi xj m =
     (let i = m_nodes m ndi;
          j = m_nodes m ndj;
          r1 = addToMoveList ndi (nd_left i) (nd_bottom i) si xj (nd_bottom j) sj m
      in if \<not> fst r1 then (False, snd r1)
         else addToMoveList ndj (nd_left j) (nd_bottom j) sj xi (nd_bottom i) si (snd r1))"

text \<open>The two cells are not neighbours: each must fit the gap the other leaves.\<close>

definition swapApart ::
  "nat \<Rightarrow> nat \<Rightarrow> int \<Rightarrow> int \<Rightarrow> int \<Rightarrow> int \<Rightarrow> nat \<Rightarrow> nat \<Rightarrow> DetailedMgr
     \<Rightarrow> error + (bool \<times> DetailedMgr)" where
  "swapApart ndi ndj xi si xj sj ix_i ix_j m =
     (let a = m_arch m;
          ci = m_cellsInSeg m ! nat si;
          cj = m_cellsInSeg m ! nat sj;
          gi = gapBounds m si si (fst (neighbourAt ci ix_i)) (snd (neighbourAt ci ix_i)) ndj ndj
      in if nd_width (m_nodes m ndj) > snd gi - fst gi then Inr (False, m)
         else
           case alignPos a (nd_width (m_nodes m ndj)) xi (fst gi) (snd gi) of
             Inl e \<Rightarrow> Inl e
           | Inr None \<Rightarrow> Inr (False, m)
           | Inr (Some xi') \<Rightarrow>
               (let gj = gapBounds m sj sj (fst (neighbourAt cj ix_j))
                           (snd (neighbourAt cj ix_j)) ndi ndi
                in if nd_width (m_nodes m ndi) > snd gj - fst gj then Inr (False, m)
                   else
                     case alignPos a (nd_width (m_nodes m ndi)) xj (fst gj) (snd gj) of
                       Inl e \<Rightarrow> Inl e
                     | Inr None \<Rightarrow> Inr (False, m)
                     | Inr (Some xj') \<Rightarrow> Inr (stageSwap ndi ndj si sj xi' xj' m)))"

text \<open>
  The two cells are neighbours in one segment: the shift solver places the pair, in
  swapped order, in the span between their outer neighbours.
\<close>

definition swapAdjacent ::
  "nat \<Rightarrow> nat \<Rightarrow> int \<Rightarrow> int \<Rightarrow> int \<Rightarrow> int \<Rightarrow> nat \<Rightarrow> nat \<Rightarrow> DetailedMgr
     \<Rightarrow> error + (bool \<times> DetailedMgr)" where
  "swapAdjacent ndi ndj xi si xj sj ix_i ix_j m =
     (let a = m_arch m;
          sp = arch_getCellSpacing a;
          ci = m_cellsInSeg m ! nat si;
          cj = m_cellsInSeg m ! nat sj
      in if \<not> valid_ix (seg_rowId (m_segments m ! nat si)) (arch_rows a) then Inl OutOfRange
         else if ix_i + 1 = ix_j then
           (let g = gapBounds m si sj (fst (neighbourAt ci ix_i)) (snd (neighbourAt cj ix_j))
                      ndj ndi
            in if nd_width (m_nodes m ndj) + nd_width (m_nodes m ndi)
                    + sp (Some ndj) (Some ndi) > snd g - fst g
               then Inr (False, m)
               else
                 case shift m [ndj, ndi] [xi, xj] [0, 0] (fst g) (snd g) si
                        (seg_rowId (m_segments m ! nat si)) of
                   Inl e \<Rightarrow> Inl e
                 | Inr r \<Rightarrow>
                     if \<not> fst r then Inr (False, m)
                     else Inr (stageSwap ndi ndj si sj (snd r ! 0) (snd r ! 1) m))
         else
           (let g = gapBounds m sj si (fst (neighbourAt cj ix_j)) (snd (neighbourAt ci ix_i))
                      ndi ndj
            in if nd_width (m_nodes m ndi) + nd_width (m_nodes m ndj)
                    + sp (Some ndi) (Some ndj) > snd g - fst g
               then Inr (False, m)
               else
                 case shift m [ndi, ndj] [xj, xi] [0, 0] (fst g) (snd g) si
                        (seg_rowId (m_segments m ! nat si)) of
                   Inl e \<Rightarrow> Inl e
                 | Inr r \<Rightarrow>
                     if \<not> fst r then Inr (False, m)
                     else Inr (stageSwap ndi ndj si sj (snd r ! 1) (snd r ! 0) m)))"

definition trySwap1 ::
  "nat \<Rightarrow> int \<Rightarrow> int \<Rightarrow> int \<Rightarrow> int \<Rightarrow> int \<Rightarrow> int \<Rightarrow> DetailedMgr
     \<Rightarrow> error + (bool \<times> DetailedMgr)" where
  "trySwap1 ndi xi yi si xj yj sj m0 =
     (let m = clearMoveList m0;
          a = m_arch m
      in if \<not> valid_ix sj (m_cellsInSeg m) then Inl OutOfRange
         else
           let cj = m_cellsInSeg m ! nat sj;
               it = lower_bound (m_nodes m) cj (rat_of_int xj)
           in if cj = [] then Inr (False, m)
              else
                let ndj = (if it = length cj then last cj else cj ! it)
                in if ndj = ndi then Inr (False, m)
                   else if arch_getCellHeightInRows a ndi \<noteq> 1
                           \<or> arch_getCellHeightInRows a ndj \<noteq> 1 then Inr (False, m)
                   else if \<not> valid_ix si (m_cellsInSeg m) then Inl OutOfRange
                   else
                     let ci = m_cellsInSeg m ! nat si;
                         ix_i = index_of ndi ci;
                         ix_j = index_of ndj cj;
                         adjacent = (si = sj \<and> (ix_i + 1 = ix_j \<or> ix_j + 1 = ix_i))
                     in if ndi \<notin> set ci then Inl OutOfRange
                        else if \<not> valid_ix si (m_segments m) \<or> \<not> valid_ix sj (m_segments m)
                        then Inl OutOfRange
                        else if \<not> adjacent then swapApart ndi ndj xi si xj sj ix_i ix_j m
                        else swapAdjacent ndi ndj xi si xj sj ix_i ix_j m)"

text \<open>The dispatchers \<^verbatim>\<open>tryMove\<close> and \<^verbatim>\<open>trySwap\<close>.\<close>

definition tryMove ::
  "nat \<Rightarrow> int \<Rightarrow> int \<Rightarrow> int \<Rightarrow> int \<Rightarrow> int \<Rightarrow> int \<Rightarrow> DetailedMgr
     \<Rightarrow> error + (bool \<times> DetailedMgr)" where
  "tryMove ndi xi yi si xj yj sj m =
     (if arch_getCellHeightInRows (m_arch m) ndi = 1 then
        if si \<noteq> sj then tryMove1 ndi xi yi si xj yj sj m
        else tryMove2 ndi xi yi si xj yj sj m
      else tryMove3 ndi xi yi si xj yj sj m)"

definition trySwap ::
  "nat \<Rightarrow> int \<Rightarrow> int \<Rightarrow> int \<Rightarrow> int \<Rightarrow> int \<Rightarrow> int \<Rightarrow> DetailedMgr
     \<Rightarrow> error + (bool \<times> DetailedMgr)" where
  "trySwap ndi xi yi si xj yj sj m = trySwap1 ndi xi yi si xj yj sj m"

text \<open>
  The shared legalization state: node positions (with the rest of each node), the
  segments with their utilization, the cell lists, the reverse map, and everything else
  of the manager except the staged move list.
\<close>

definition sharedState :: "DetailedMgr \<Rightarrow> DetailedMgr" where
  "sharedState m =
     m\<lparr>m_nMoved := 0, m_movedNodes := [], m_curLeft := [], m_curBottom := [], m_curSeg := [],
       m_newLeft := [], m_newBottom := [], m_newSeg := []\<rparr>"

text \<open>A result keeps the shared state: it is an error, or the manager it returns has it.\<close>

definition keepsShared :: "DetailedMgr \<Rightarrow> error + (bool \<times> DetailedMgr) \<Rightarrow> bool" where
  "keepsShared m r \<longleftrightarrow>
     (case r of Inl e \<Rightarrow> True | Inr bm \<Rightarrow> sharedState (snd bm) = sharedState m)"

section \<open>Closest segment of a single-height cell\<close>

text \<open>
  The two candidates \<^verbatim>\<open>findClosestSegment\<close> tracks: the closest segment and the closest
  segment wide enough for the cell, each with its distance.  The distances start at
  \<^verbatim>\<open>std::numeric_limits<double>::max()\<close>, modelled by \<^term>\<open>None\<close> as for the shift
  solver's costs; every other distance is an integer.
\<close>

record Closest =
  cl_dist1 :: "int option"
  cl_best1 :: "nat option"
  cl_dist2 :: "int option"
  cl_best2 :: "nat option"

definition le_dist :: "int \<Rightarrow> int option \<Rightarrow> bool" where
  "le_dist v d = (case d of None \<Rightarrow> True | Some x \<Rightarrow> v \<le> x)"

text \<open>The horizontal distance of the cell to a segment, working with the left edge.\<close>

definition segHori :: "Node \<Rightarrow> DetailedSeg \<Rightarrow> int" where
  "segHori nd sg =
     (let x1 = seg_minX sg;
          x2 = seg_maxX sg - nd_width nd;
          xx = max x1 (min x2 (nd_left nd))
      in max 0 \<bar>xx - nd_left nd\<bar>)"

definition segFits :: "Node \<Rightarrow> DetailedSeg \<Rightarrow> bool" where
  "segFits nd sg \<longleftrightarrow> nd_width nd \<le> seg_maxX sg - seg_minX sg"

text \<open>The body of the loop over the segments of one row, at vertical distance \<open>vert\<close>.\<close>

definition closestStep :: "Node \<Rightarrow> DetailedSeg list \<Rightarrow> int \<Rightarrow> nat \<Rightarrow> Closest \<Rightarrow> Closest" where
  "closestStep nd segs vert p st =
     (let cur = segs ! p
      in if nd_regionId nd \<noteq> seg_regId cur then st
         else
           let hori = segHori nd cur;
               closer1 = lt_cost (Some (hori + vert)) (cl_dist1 st);
               closer2 = lt_cost (Some (hori + vert)) (cl_dist2 st);
               fits = segFits nd cur;
               st1 = (if cl_best1 st = None \<or> (cl_best1 st \<noteq> None \<and> closer1)
                      then st\<lparr>cl_best1 := Some p, cl_dist1 := Some (hori + vert)\<rparr> else st)
           in if fits \<and> (cl_best2 st = None \<or> (cl_best2 st \<noteq> None \<and> closer2))
              then st1\<lparr>cl_best2 := Some p, cl_dist2 := Some (hori + vert)\<rparr> else st1)"

definition closestRow :: "Node \<Rightarrow> DetailedSeg list \<Rightarrow> int \<Rightarrow> nat list \<Rightarrow> Closest \<Rightarrow> Closest" where
  "closestRow nd segs vert ptrs st = fold (closestStep nd segs vert) ptrs st"

text \<open>
  One round of the outward search: the row \<open>offset\<close> below and the row \<open>offset\<close> above
  the closest row, each scanned only if its vertical distance could still improve one
  of the two candidates.
\<close>

definition closestOffset ::
  "Node \<Rightarrow> DetailedSeg list \<Rightarrow> nat list list \<Rightarrow> int \<Rightarrow> int \<Rightarrow> int \<Rightarrow> int \<Rightarrow> Closest \<Rightarrow> Closest" where
  "closestOffset nd segs segsInRow numRows rowHeight row offset st =
     (let below = row - offset;
          vert = offset * rowHeight;
          st1 = (if below \<ge> 0 \<and> (le_dist vert (cl_dist1 st) \<or> le_dist vert (cl_dist2 st))
                 then closestRow nd segs vert (segsInRow ! nat below) st else st);
          above = row + offset
      in if above \<le> numRows - 1 \<and> (le_dist vert (cl_dist1 st1) \<or> le_dist vert (cl_dist2 st1))
         then closestRow nd segs vert (segsInRow ! nat above) st1 else st1)"

definition closestInit :: Closest where
  "closestInit = \<lparr>cl_dist1 = None, cl_best1 = None, cl_dist2 = None, cl_best2 = None\<rparr>"

definition closestResult :: "Closest \<Rightarrow> nat option" where
  "closestResult st = (if cl_best2 st \<noteq> None then cl_best2 st else cl_best1 st)"

text \<open>
  The index checks of the model: the closest row exists, \<^verbatim>\<open>m_segsInRow\<close> has an entry
  for each of the \<^verbatim>\<open>m_numSingleHeightRows\<close> rows, and every pointer in it is a segment.
\<close>

definition closestIndicesOk :: "DetailedMgr \<Rightarrow> int \<Rightarrow> bool" where
  "closestIndicesOk m row \<longleftrightarrow>
     valid_ix row (m_segsInRow m)
     \<and> m_numSingleHeightRows m \<le> int (length (m_segsInRow m))
     \<and> list_all (list_all (\<lambda>p. p < length (m_segments m))) (m_segsInRow m)"

definition findClosestSegment :: "nat \<Rightarrow> DetailedMgr \<Rightarrow> error + nat option" where
  "findClosestSegment ndp m =
     (let nd = m_nodes m ndp;
          row = arch_find_closest_row (m_arch m) (nd_bottom nd)
      in if \<not> closestIndicesOk m row then Inl OutOfRange
         else
           let st0 = closestRow nd (m_segments m) 0 (m_segsInRow m ! nat row) closestInit
           in Inr (closestResult
                (fold (closestOffset nd (m_segments m) (m_segsInRow m)
                         (m_numSingleHeightRows m) (m_singleRowHeight m) row)
                   [1..m_numSingleHeightRows m] st0)))"

text \<open>
  The exhaustive search the claim compares with: the same rounds, every row scanned
  whatever its vertical distance.
\<close>

definition exhaustiveOffset ::
  "Node \<Rightarrow> DetailedSeg list \<Rightarrow> nat list list \<Rightarrow> int \<Rightarrow> int \<Rightarrow> int \<Rightarrow> int \<Rightarrow> Closest \<Rightarrow> Closest" where
  "exhaustiveOffset nd segs segsInRow numRows rowHeight row offset st =
     (let below = row - offset;
          vert = offset * rowHeight;
          st1 = (if below \<ge> 0 then closestRow nd segs vert (segsInRow ! nat below) st else st);
          above = row + offset
      in if above \<le> numRows - 1 then closestRow nd segs vert (segsInRow ! nat above) st1
         else st1)"

definition findClosestSegment_exhaustive :: "nat \<Rightarrow> DetailedMgr \<Rightarrow> error + nat option" where
  "findClosestSegment_exhaustive ndp m =
     (let nd = m_nodes m ndp;
          row = arch_find_closest_row (m_arch m) (nd_bottom nd)
      in if \<not> closestIndicesOk m row then Inl OutOfRange
         else
           let st0 = closestRow nd (m_segments m) 0 (m_segsInRow m ! nat row) closestInit
           in Inr (closestResult
                (fold (exhaustiveOffset nd (m_segments m) (m_segsInRow m)
                         (m_numSingleHeightRows m) (m_singleRowHeight m) row)
                   [1..m_numSingleHeightRows m] st0)))"

text \<open>
  The metric of the claim for the segment \<open>p\<close> listed in row \<open>r\<close>: the horizontal clamp
  distance plus the row distance from the closest row, in row heights.
\<close>

definition closestCost :: "DetailedMgr \<Rightarrow> nat \<Rightarrow> int \<Rightarrow> nat \<Rightarrow> int" where
  "closestCost m ndp r p =
     segHori (m_nodes m ndp) (m_segments m ! p)
     + \<bar>r - arch_find_closest_row (m_arch m) (nd_bottom (m_nodes m ndp))\<bar> * m_singleRowHeight m"

text \<open>The segment \<open>p\<close> is listed in row \<open>r\<close> and has the region id of the cell.\<close>

definition closestCandidate :: "DetailedMgr \<Rightarrow> nat \<Rightarrow> int \<Rightarrow> nat \<Rightarrow> bool" where
  "closestCandidate m ndp r p \<longleftrightarrow>
     0 \<le> r \<and> r < m_numSingleHeightRows m \<and> p \<in> set (m_segsInRow m ! nat r)
     \<and> seg_regId (m_segments m ! p) = nd_regionId (m_nodes m ndp)"

definition closestFits :: "DetailedMgr \<Rightarrow> nat \<Rightarrow> nat \<Rightarrow> bool" where
  "closestFits m ndp p \<longleftrightarrow> segFits (m_nodes m ndp) (m_segments m ! p)"

text \<open>
  What the search records about a set \<open>M\<close> of candidates, each a segment with the
  vertical distance of the row it was met in: nothing if \<open>M\<close> is empty, otherwise one
  of its members of least total distance, and that distance.
\<close>

definition bestOk :: "Node \<Rightarrow> DetailedSeg list \<Rightarrow> (int \<times> nat) set \<Rightarrow> int option \<Rightarrow> nat option \<Rightarrow> bool" where
  "bestOk nd segs M d b \<longleftrightarrow>
     (case b of
        None \<Rightarrow> M = {} \<and> d = None
      | Some p \<Rightarrow> \<exists>v. (v, p) \<in> M \<and> d = Some (segHori nd (segs ! p) + v)
            \<and> (\<forall>(v', p') \<in> M. segHori nd (segs ! p) + v \<le> segHori nd (segs ! p') + v'))"

text \<open>The candidates among \<open>C\<close> with the cell's region id, and those wide enough for the cell.\<close>

definition matching :: "Node \<Rightarrow> DetailedSeg list \<Rightarrow> (int \<times> nat) set \<Rightarrow> (int \<times> nat) set" where
  "matching nd segs C = {(v, p). (v, p) \<in> C \<and> seg_regId (segs ! p) = nd_regionId nd}"

definition fitting :: "Node \<Rightarrow> DetailedSeg list \<Rightarrow> (int \<times> nat) set \<Rightarrow> (int \<times> nat) set" where
  "fitting nd segs C = {(v, p). (v, p) \<in> C \<and> seg_regId (segs ! p) = nd_regionId nd \<and> segFits nd (segs ! p)}"

text \<open>The state of the search after the candidates \<open>C\<close> have been scanned.\<close>

definition stOk :: "Node \<Rightarrow> DetailedSeg list \<Rightarrow> (int \<times> nat) set \<Rightarrow> Closest \<Rightarrow> bool" where
  "stOk nd segs C st \<longleftrightarrow>
     bestOk nd segs (matching nd segs C) (cl_dist1 st) (cl_best1 st)
     \<and> bestOk nd segs (fitting nd segs C) (cl_dist2 st) (cl_best2 st)"

text \<open>The candidates one row contributes in round \<open>k\<close>, if the row is scanned.\<close>

definition rowCands :: "nat list list \<Rightarrow> int \<Rightarrow> int \<Rightarrow> int \<Rightarrow> bool \<Rightarrow> (int \<times> nat) set" where
  "rowCands sir h k r ok = (if ok then Pair (k * h) ` set (sir ! nat r) else {})"

text \<open>The candidates of the rows at most \<open>k\<close> rows away from the closest row.\<close>

definition visited :: "nat list list \<Rightarrow> int \<Rightarrow> int \<Rightarrow> int \<Rightarrow> int \<Rightarrow> (int \<times> nat) set" where
  "visited sir n h row k =
     {(v, p). \<exists>r. 0 \<le> r \<and> r < n \<and> \<bar>r - row\<bar> \<le> k \<and> v = \<bar>r - row\<bar> * h \<and> p \<in> set (sir ! nat r)}"

text \<open>
  A history of insertions and removals, run from a given state; it stops at the first
  fatal error.
\<close>

datatype segOp = AddCell nat int | RemoveCell nat int

fun runOps :: "segOp list \<Rightarrow> DetailedMgr \<Rightarrow> error + DetailedMgr" where
  "runOps [] m = Inr m"
| "runOps (AddCell nd seg # ops) m =
     (case addCellToSegment nd seg m of Inl e \<Rightarrow> Inl e | Inr m' \<Rightarrow> runOps ops m')"
| "runOps (RemoveCell nd seg # ops) m =
     (case removeCellFromSegment nd seg m of Inl e \<Rightarrow> Inl e | Inr m' \<Rightarrow> runOps ops m')"

definition emptyAssignment :: "DetailedMgr \<Rightarrow> bool" where
  "emptyAssignment m \<longleftrightarrow>
     (\<forall>l \<in> set (m_cellsInSeg m). l = []) \<and> (\<forall>l \<in> set (m_reverseCellToSegs m). l = [])"

definition utilOk :: "DetailedMgr \<Rightarrow> bool" where
  "utilOk m \<longleftrightarrow>
     length (m_cellsInSeg m) = length (m_segments m) \<and>
     (\<forall>s < length (m_segments m).
        seg_util (m_segments m ! s) = (\<Sum>c \<leftarrow> m_cellsInSeg m ! s. ceilWidth (m_nodes m c)))"

definition segIdsOk :: "DetailedMgr \<Rightarrow> bool" where
  "segIdsOk m \<longleftrightarrow>
     length (m_cellsInSeg m) = length (m_segments m) \<and>
     (\<forall>i < length (m_segments m). seg_segId (m_segments m ! i) = int i)"

text \<open>
  The cell lists and the reverse map mirror each other: every reverse-map entry and every
  cell list is free of duplicates, and a cell is in a segment's list exactly when the
  segment is in the cell's entry.
\<close>

definition consistent :: "nat list list \<Rightarrow> nat list list \<Rightarrow> bool" where
  "consistent cl rv \<longleftrightarrow>
     (\<forall>nd < length rv.
        distinct (rv ! nd) \<and> (\<forall>s \<in> set (rv ! nd). s < length cl \<and> nd \<in> set (cl ! s))) \<and>
     (\<forall>s < length cl.
        distinct (cl ! s) \<and> (\<forall>nd \<in> set (cl ! s). nd < length rv \<and> s \<in> set (rv ! nd)))"

text \<open>
  No reverse-map entry is longer than the number of rows its cell spans (for a cell whose
  row span is not negative; a negative span compares as a huge unsigned number in
  \<^verbatim>\<open>addCellToSegment\<close>).
\<close>

definition sizeBound :: "DetailedMgr \<Rightarrow> bool" where
  "sizeBound m \<longleftrightarrow>
     (\<forall>nd < length (m_reverseCellToSegs m).
        0 \<le> arch_getCellHeightInRows (m_arch m) nd \<longrightarrow>
        int (length (m_reverseCellToSegs m ! nd)) \<le> arch_getCellHeightInRows (m_arch m) nd)"

text \<open>
  A row has a segment for a move: one of its segments has the region id and an x-interval
  \<open>[minX, maxX]\<close> that holds the target.
\<close>

definition rowHasSeg :: "DetailedMgr \<Rightarrow> int \<Rightarrow> int \<Rightarrow> int \<Rightarrow> bool" where
  "rowHasSeg m reg xj r \<longleftrightarrow>
     list_ex (\<lambda>p. seg_regId (m_segments m ! p) = reg
                 \<and> seg_minX (m_segments m ! p) \<le> xj \<and> xj \<le> seg_maxX (m_segments m ! p))
       (m_segsInRow m ! nat r)"

section \<open>Example instance\<close>

text \<open>
  A small floorplan used to run the operations on concrete inputs: four rows of height
  10 spanning \<open>[0, 100)\<close> with unit sites, no spacing rule, node 2 two rows high and
  every other node one row high.
\<close>

definition exRow :: "int \<Rightarrow> Row" where
  "exRow b = \<lparr>row_bottom = b, row_height = 10, row_left = 0, row_right = 100,
              row_siteSpacing = 1, row_siteWidth = 1\<rparr>"

definition exArch :: Architecture where
  "exArch = \<lparr>arch_rows = [exRow 0, exRow 10, exRow 20, exRow 30],
             arch_minX = 0, arch_maxX = 100, arch_minY = 0, arch_maxY = 40,
             arch_regions = [],
             arch_getCellSpacing = (\<lambda>l r. 0),
             arch_getCellHeightInRows = (\<lambda>nd. if nd = 2 then 2 else 1),
             arch_power_compatible = (\<lambda>nd r. True),
             arch_find_closest_row = (\<lambda>y. max 0 (min 3 (y div 10)))\<rparr>"

definition exNode :: "int \<Rightarrow> int \<Rightarrow> int \<Rightarrow> int \<Rightarrow> Node" where
  "exNode x y w h = \<lparr>nd_left = x, nd_bottom = y, nd_width = w, nd_height = h,
                     nd_regionId = 0, nd_origLeft = x, nd_origBottom = y\<rparr>"

definition exNodes :: "nat \<Rightarrow> Node" where
  "exNodes i = (if i = 0 then exNode 10 0 8 10
               else if i = 1 then exNode 30 0 12 10
               else if i = 2 then exNode 50 10 10 20
               else exNode 20 10 10 10)"

definition exSeg :: "int \<Rightarrow> DetailedSeg" where
  "exSeg i = \<lparr>seg_segId = i, seg_rowId = i, seg_regId = 0, seg_minX = 0, seg_maxX = 100,
              seg_util = 0\<rparr>"

text \<open>The manager after construction, with one free segment per row and nothing assigned.\<close>

definition exMgr :: DetailedMgr where
  "exMgr =
     \<lparr>m_arch = exArch, m_nodes = exNodes, m_numNodes = 4, m_rt = None,
      m_fixedCells = [], m_singleRowHeight = 10, m_numSingleHeightRows = 4,
      m_maxDispX = 200, m_maxDispY = 200,
      m_origLeft = [10, 30, 50, 20], m_origBottom = [0, 0, 10, 10],
      m_moveLimit = 10, m_nMoved = 0,
      m_movedNodes = replicate 10 None,
      m_curLeft = replicate 10 0, m_curBottom = replicate 10 0, m_curSeg = replicate 10 [],
      m_newLeft = replicate 10 0, m_newBottom = replicate 10 0, m_newSeg = replicate 10 [],
      m_blockages = [[], [], [], []],
      m_segments = [exSeg 0, exSeg 1, exSeg 2, exSeg 3],
      m_segsInRow = [[0], [1], [2], [3]],
      m_cellsInSeg = [[], [], [], []],
      m_reverseCellToSegs = [[], [], [], []]\<rparr>"

text \<open>The example with node 0 assigned to segment 0, and then with one staged move.\<close>

definition exMgr1 :: DetailedMgr where
  "exMgr1 = exMgr\<lparr>m_segments := [(exSeg 0)\<lparr>seg_util := 8\<rparr>, exSeg 1, exSeg 2, exSeg 3],
                  m_cellsInSeg := [[0], [], [], []],
                  m_reverseCellToSegs := [[0], [], [], []]\<rparr>"

definition exMgr2 :: DetailedMgr where
  "exMgr2 = snd (addToMoveList 0 10 0 0 15 10 1 exMgr1)"

text \<open>
  The example with every node assigned: nodes 0 and 1 in the segment of row 0, node 3 and
  the two-row node 2 in the segment of row 1, node 2 also in the segment of row 2.
\<close>

definition exMgr3 :: DetailedMgr where
  "exMgr3 = exMgr\<lparr>m_segments := [(exSeg 0)\<lparr>seg_util := 20\<rparr>, (exSeg 1)\<lparr>seg_util := 20\<rparr>,
                                   (exSeg 2)\<lparr>seg_util := 10\<rparr>, exSeg 3],
                  m_cellsInSeg := [[0, 1], [3, 2], [2], []],
                  m_reverseCellToSegs := [[0], [0], [1, 2], [1]]\<rparr>"

text \<open>The same with the segment of row 1 starting at x = 60 only.\<close>

definition exMgr3b :: DetailedMgr where
  "exMgr3b = exMgr3\<lparr>m_segments := (m_segments exMgr3)[1 := (exSeg 1)\<lparr>seg_minX := 60\<rparr>]\<rparr>"

text \<open>
  A state for a move into the top rows: the two-row node 2 sits in rows 0 and 1 at
  x = 50, and the segment of the top row 3 starts at x = 60 only.
\<close>

definition exNodes4 :: "nat \<Rightarrow> Node" where
  "exNodes4 i = (if i = 2 then exNode 50 0 10 20 else exNodes i)"

definition exMgr4 :: DetailedMgr where
  "exMgr4 = exMgr\<lparr>m_nodes := exNodes4,
                  m_origBottom := [0, 0, 0, 10],
                  m_segments := [(exSeg 0)\<lparr>seg_util := 30\<rparr>, (exSeg 1)\<lparr>seg_util := 20\<rparr>,
                                 exSeg 2, (exSeg 3)\<lparr>seg_minX := 60\<rparr>],
                  m_cellsInSeg := [[0, 1, 2], [3, 2], [], []],
                  m_reverseCellToSegs := [[0], [0], [0, 1], [1]]\<rparr>"

text \<open>
  A state for the closest-segment search of node 3 (in row 1 at x = 20, width 10): the
  segment of row 0 starts at x = 40, the segment of row 1 is 5 wide, and the segment of
  row 2 belongs to region 1.
\<close>

definition exMgr5 :: DetailedMgr where
  "exMgr5 = exMgr\<lparr>m_segments := [(exSeg 0)\<lparr>seg_minX := 40\<rparr>, (exSeg 1)\<lparr>seg_maxX := 5\<rparr>,
                                   (exSeg 2)\<lparr>seg_regId := 1\<rparr>, exSeg 3]\<rparr>"

section \<open>Running the example\<close>

lemmas ex_defs = exMgr_def exArch_def exNodes_def exNode_def exSeg_def exRow_def

lemmas op_defs = addCellToSegment_def removeCellFromSegment_def valid_ix_def lower_bound_def
  centerX_def ceilWidth_def size_ge_def to_size_t_def addUtil_def remUtil_def Let_def

section \<open>Properties of the move list\<close>

lemma moveListSized_new:
  "DetailedMgr_new arch nodes n rt = Inr m \<Longrightarrow> moveListSized m \<and> m_nMoved m = 0"
  by (auto simp: DetailedMgr_new_def moveListSized_def recordOriginalPositions_def Let_def
      split: if_splits)

lemma moveListSized_addToMoveList:
  "moveListSized m \<Longrightarrow> moveListSized (snd (addToMoveList nd cl cb cs nl nb ns m))"
  by (simp add: addToMoveList_def moveListSized_def Let_def)

text \<open>
  C2.  On a manager whose move list is as the constructor built it (limit 10, arrays of
  10 entries), the single-segment \<^verbatim>\<open>addToMoveList\<close> returns true exactly when fewer
  than 10 cells are staged and the ceilings of the distances of the new left and bottom
  from the cell's original left and bottom are within the maximum displacements; then
  exactly one entry, the given one, is appended to the staged list; otherwise the
  manager is unchanged.
\<close>

theorem addToMoveList_single_iff:
  assumes "moveListSized m"
  shows "(fst (addToMoveList nd cl cb cs nl nb ns m) \<longleftrightarrow>
            m_nMoved m < 10
            \<and> \<lceil>\<bar>rat_of_int (nl - nd_origLeft (m_nodes m nd))\<bar>\<rceil> \<le> m_maxDispX m
            \<and> \<lceil>\<bar>rat_of_int (nb - nd_origBottom (m_nodes m nd))\<bar>\<rceil> \<le> m_maxDispY m)
       \<and> (fst (addToMoveList nd cl cb cs nl nb ns m) \<longrightarrow>
            stagedMoves (snd (addToMoveList nd cl cb cs nl nb ns m)) =
              stagedMoves m @
                [\<lparr>mv_node = Some nd, mv_curLeft = cl, mv_curBottom = cb, mv_curSeg = [cs],
                  mv_newLeft = nl, mv_newBottom = nb, mv_newSeg = [ns]\<rparr>])
       \<and> (\<not> fst (addToMoveList nd cl cb cs nl nb ns m) \<longrightarrow>
            snd (addToMoveList nd cl cb cs nl nb ns m) = m)"
proof -
  let ?r = "addToMoveList nd cl cb cs nl nb ns m"
  have lim: "m_moveLimit m = 10" and
    len: "length (m_movedNodes m) = 10" "length (m_curLeft m) = 10"
      "length (m_curBottom m) = 10" "length (m_curSeg m) = 10"
      "length (m_newLeft m) = 10" "length (m_newBottom m) = 10"
      "length (m_newSeg m) = 10"
    using assms by (simp_all add: moveListSized_def)
  have a: "fst ?r \<longleftrightarrow>
            m_nMoved m < 10
            \<and> \<lceil>\<bar>rat_of_int (nl - nd_origLeft (m_nodes m nd))\<bar>\<rceil> \<le> m_maxDispX m
            \<and> \<lceil>\<bar>rat_of_int (nb - nd_origBottom (m_nodes m nd))\<bar>\<rceil> \<le> m_maxDispY m"
    by (auto simp: addToMoveList_def Let_def lim)
  have c: "\<not> fst ?r \<longrightarrow> snd ?r = m"
    by (simp add: addToMoveList_def Let_def)
  have b: "stagedMoves (snd ?r) =
              stagedMoves m @
                [\<lparr>mv_node = Some nd, mv_curLeft = cl, mv_curBottom = cb, mv_curSeg = [cs],
                  mv_newLeft = nl, mv_newBottom = nb, mv_newSeg = [ns]\<rparr>]" if t: "fst ?r"
  proof -
    from t a have k: "m_nMoved m < 10" by simp
    from t have r: "?r = (True,
        m\<lparr>m_movedNodes := (m_movedNodes m)[m_nMoved m := Some nd],
          m_curLeft := (m_curLeft m)[m_nMoved m := cl],
          m_curBottom := (m_curBottom m)[m_nMoved m := cb],
          m_curSeg := (m_curSeg m)[m_nMoved m := [cs]],
          m_newLeft := (m_newLeft m)[m_nMoved m := nl],
          m_newBottom := (m_newBottom m)[m_nMoved m := nb],
          m_newSeg := (m_newSeg m)[m_nMoved m := [ns]],
          m_nMoved := m_nMoved m + 1\<rparr>)"
      by (simp add: addToMoveList_def Let_def split: if_splits)
    show ?thesis
      unfolding r using k len
      by (simp add: stagedMoves_def stagedEntry_def)
  qed
  from a b c show ?thesis by blast
qed

theorem addToMoveList_single_iff_witness:
  "moveListSized exMgr
   \<and> fst (addToMoveList 0 10 0 0 15 0 0 exMgr)
   \<and> stagedMoves (snd (addToMoveList 0 10 0 0 15 0 0 exMgr)) =
       [\<lparr>mv_node = Some 0, mv_curLeft = 10, mv_curBottom = 0, mv_curSeg = [0],
         mv_newLeft = 15, mv_newBottom = 0, mv_newSeg = [0]\<rparr>]
   \<and> \<not> fst (addToMoveList 0 10 0 0 15 0 0 (exMgr\<lparr>m_maxDispX := 4\<rparr>))
   \<and> snd (addToMoveList 0 10 0 0 15 0 0 (exMgr\<lparr>m_maxDispX := 4\<rparr>)) = exMgr\<lparr>m_maxDispX := 4\<rparr>"
proof -
  have s: "moveListSized exMgr" "moveListSized (exMgr\<lparr>m_maxDispX := 4\<rparr>)"
    by (simp_all add: moveListSized_def exMgr_def)
  have e: "stagedMoves exMgr = []"
    by (simp add: stagedMoves_def exMgr_def)
  have v: "m_nMoved exMgr = 0" "m_maxDispX exMgr = 200" "m_maxDispY exMgr = 200"
    "nd_origLeft (m_nodes exMgr 0) = 10" "nd_origBottom (m_nodes exMgr 0) = 0"
    by (simp_all add: exMgr_def exNodes_def exNode_def)
  show ?thesis
    using addToMoveList_single_iff [OF s(1), of 0 10 0 0 15 0 0]
      addToMoveList_single_iff [OF s(2), of 0 10 0 0 15 0 0] s e v
    by simp
qed

section \<open>The cell lists and the reverse map\<close>

lemma addCell_success:
  assumes "addCellToSegment nd seg m = Inr m'"
  shows "valid_ix seg (m_cellsInSeg m)" "valid_ix seg (m_segments m)"
    "nd < length (m_reverseCellToSegs m)"
    "nat seg \<notin> set (m_reverseCellToSegs m ! nd)"
    "\<not> size_ge (length (m_reverseCellToSegs m ! nd)) (arch_getCellHeightInRows (m_arch m) nd)"
    "m_cellsInSeg m' = (m_cellsInSeg m)[nat seg :=
        take (lower_bound (m_nodes m) (m_cellsInSeg m ! nat seg) (centerX (m_nodes m nd)))
              (m_cellsInSeg m ! nat seg) @
        nd # drop (lower_bound (m_nodes m) (m_cellsInSeg m ! nat seg) (centerX (m_nodes m nd)))
              (m_cellsInSeg m ! nat seg)]"
    "m_reverseCellToSegs m' = (m_reverseCellToSegs m)[nd := m_reverseCellToSegs m ! nd @ [nat seg]]"
    "m_segments m' = (m_segments m)[nat seg := addUtil (ceilWidth (m_nodes m nd)) (m_segments m ! nat seg)]"
    "m_arch m' = m_arch m" "m_nodes m' = m_nodes m"
  using assms unfolding addCellToSegment_def Let_def by (auto split: if_splits)

lemma removeCell_success:
  assumes "removeCellFromSegment nd seg m = Inr m'"
  shows "valid_ix seg (m_cellsInSeg m)" "valid_ix seg (m_segments m)"
    "nd < length (m_reverseCellToSegs m)"
    "nd \<in> set (m_cellsInSeg m ! nat seg)"
    "nat seg \<in> set (m_reverseCellToSegs m ! nd)"
    "m_cellsInSeg m' = (m_cellsInSeg m)[nat seg := remove1 nd (m_cellsInSeg m ! nat seg)]"
    "m_reverseCellToSegs m' = (m_reverseCellToSegs m)[nd := remove1 (nat seg) (m_reverseCellToSegs m ! nd)]"
    "m_segments m' = (m_segments m)[nat seg := remUtil (ceilWidth (m_nodes m nd)) (m_segments m ! nat seg)]"
    "m_arch m' = m_arch m" "m_nodes m' = m_nodes m"
  using assms unfolding removeCellFromSegment_def Let_def by (auto split: if_splits)

lemma consistent_add:
  assumes c: "consistent cl rv" and s: "s < length cl" and n: "nd < length rv"
    and ns: "s \<notin> set (rv ! nd)"
    and new: "set new = insert nd (set (cl ! s))" "distinct new \<longleftrightarrow> distinct (cl ! s) \<and> nd \<notin> set (cl ! s)"
  shows "consistent (cl[s := new]) (rv[nd := rv ! nd @ [s]])"
proof -
  from c s n ns have nc: "nd \<notin> set (cl ! s)" unfolding consistent_def by blast
  have c1: "\<And>n t. n < length rv \<Longrightarrow> t \<in> set (rv ! n) \<Longrightarrow> t < length cl \<and> n \<in> set (cl ! t)"
    and c2: "\<And>n t. t < length cl \<Longrightarrow> n \<in> set (cl ! t) \<Longrightarrow> n < length rv \<and> t \<in> set (rv ! n)"
    and d1: "\<And>n. n < length rv \<Longrightarrow> distinct (rv ! n)"
    and d2: "\<And>t. t < length cl \<Longrightarrow> distinct (cl ! t)"
    using c unfolding consistent_def by blast+
  have r: "set (rv[nd := rv ! nd @ [s]] ! n) = (if n = nd then insert s (set (rv ! nd)) else set (rv ! n))"
    if "n < length rv" for n using that by (simp add: nth_list_update)
  have k: "set (cl[s := new] ! t) = (if t = s then insert nd (set (cl ! s)) else set (cl ! t))"
    if "t < length cl" for t using that new by (simp add: nth_list_update)
  show ?thesis
    unfolding consistent_def
  proof (intro conjI allI impI ballI)
    fix n assume "n < length (rv[nd := rv ! nd @ [s]])"
    then have n': "n < length rv" by simp
    show "distinct (rv[nd := rv ! nd @ [s]] ! n)"
      using d1 [OF n'] ns n' n by (cases "n = nd") (simp_all add: nth_list_update)
    fix t assume "t \<in> set (rv[nd := rv ! nd @ [s]] ! n)"
    then have t: "(n = nd \<and> t = s) \<or> t \<in> set (rv ! n)"
      using r [OF n'] by (auto split: if_splits)
    then have tl: "t < length cl" using c1 [OF n'] s by blast
    then show "t < length (cl[s := new])" by simp
    show "n \<in> set (cl[s := new] ! t)"
      using t k [OF tl] c1 [OF n'] by auto
  next
    fix t assume "t < length (cl[s := new])"
    then have t': "t < length cl" by simp
    show "distinct (cl[s := new] ! t)"
      using d2 [OF t'] nc new t' s by (cases "t = s") (simp_all add: nth_list_update)
    fix n assume "n \<in> set (cl[s := new] ! t)"
    then have t: "(n = nd \<and> t = s) \<or> n \<in> set (cl ! t)"
      using k [OF t'] by (auto split: if_splits)
    then have nl: "n < length rv" using c2 [OF t'] n by blast
    then show "n < length (rv[nd := rv ! nd @ [s]])" by simp
    show "t \<in> set (rv[nd := rv ! nd @ [s]] ! n)"
      using t r [OF nl] c2 [OF t'] by auto
  qed
qed

lemma consistent_remove:
  assumes c: "consistent cl rv" and s: "s < length cl" and n: "nd < length rv"
  shows "consistent (cl[s := remove1 nd (cl ! s)]) (rv[nd := remove1 s (rv ! nd)])"
proof -
  have c1: "\<And>n t. n < length rv \<Longrightarrow> t \<in> set (rv ! n) \<Longrightarrow> t < length cl \<and> n \<in> set (cl ! t)"
    and c2: "\<And>n t. t < length cl \<Longrightarrow> n \<in> set (cl ! t) \<Longrightarrow> n < length rv \<and> t \<in> set (rv ! n)"
    and d1: "\<And>n. n < length rv \<Longrightarrow> distinct (rv ! n)"
    and d2: "\<And>t. t < length cl \<Longrightarrow> distinct (cl ! t)"
    using c unfolding consistent_def by blast+
  have r: "set (rv[nd := remove1 s (rv ! nd)] ! n) = (if n = nd then set (rv ! nd) - {s} else set (rv ! n))"
    if "n < length rv" for n using that d1 [of nd] n by (simp add: nth_list_update)
  have k: "set (cl[s := remove1 nd (cl ! s)] ! t) = (if t = s then set (cl ! s) - {nd} else set (cl ! t))"
    if "t < length cl" for t using that d2 [of s] s by (simp add: nth_list_update)
  show ?thesis
    unfolding consistent_def
  proof (intro conjI allI impI ballI)
    fix n assume "n < length (rv[nd := remove1 s (rv ! nd)])"
    then have n': "n < length rv" by simp
    show "distinct (rv[nd := remove1 s (rv ! nd)] ! n)"
      using d1 [OF n'] n' n by (cases "n = nd") (simp_all add: nth_list_update)
    fix t assume "t \<in> set (rv[nd := remove1 s (rv ! nd)] ! n)"
    then have t: "t \<in> set (rv ! n) \<and> \<not> (n = nd \<and> t = s)"
      using r [OF n'] by (auto split: if_splits)
    then have tl: "t < length cl" using c1 [OF n'] by blast
    then show "t < length (cl[s := remove1 nd (cl ! s)])" by simp
    show "n \<in> set (cl[s := remove1 nd (cl ! s)] ! t)"
      using t k [OF tl] c1 [OF n'] by auto
  next
    fix t assume "t < length (cl[s := remove1 nd (cl ! s)])"
    then have t': "t < length cl" by simp
    show "distinct (cl[s := remove1 nd (cl ! s)] ! t)"
      using d2 [OF t'] t' s by (cases "t = s") (simp_all add: nth_list_update)
    fix n assume "n \<in> set (cl[s := remove1 nd (cl ! s)] ! t)"
    then have t: "n \<in> set (cl ! t) \<and> \<not> (n = nd \<and> t = s)"
      using k [OF t'] by (auto split: if_splits)
    then have nl: "n < length rv" using c2 [OF t'] by blast
    then show "n < length (rv[nd := remove1 s (rv ! nd)])" by simp
    show "t \<in> set (rv[nd := remove1 s (rv ! nd)] ! n)"
      using t r [OF nl] c2 [OF t'] by auto
  qed
qed

lemma valid_ix_nat: "valid_ix i xs \<Longrightarrow> nat i < length xs"
  unfolding valid_ix_def by linarith

lemma set_insert_at: "set (take k xs @ x # drop k xs) = insert x (set xs)"
proof -
  have "set (ys @ x # zs) = insert x (set (ys @ zs))" for ys zs :: "'a list" by auto
  from this [of "take k xs" "drop k xs"] show ?thesis by simp
qed

lemma distinct_insert_at:
  "distinct (take k xs @ x # drop k xs) \<longleftrightarrow> distinct xs \<and> x \<notin> set xs"
proof -
  have "distinct (ys @ x # zs) \<longleftrightarrow> distinct (ys @ zs) \<and> x \<notin> set (ys @ zs)"
    for ys zs :: "'a list" by auto
  from this [of "take k xs" "drop k xs"] show ?thesis by simp
qed

lemma sum_remove1:
  "x \<in> set xs \<Longrightarrow> (\<Sum>c \<leftarrow> remove1 x xs. f c) = (\<Sum>c \<leftarrow> xs. f c) - (f x :: int)"
  by (induction xs) auto

lemma consistent_runOps:
  assumes "consistent (m_cellsInSeg m) (m_reverseCellToSegs m)" "runOps ops m = Inr m'"
  shows "consistent (m_cellsInSeg m') (m_reverseCellToSegs m') \<and> m_arch m' = m_arch m"
  using assms
proof (induction ops arbitrary: m)
  case Nil
  then show ?case by simp
next
  case (Cons op ops)
  show ?case
  proof (cases op)
    case (AddCell nd seg)
    with Cons.prems(2) obtain m1 where m1: "addCellToSegment nd seg m = Inr m1"
      and rest: "runOps ops m1 = Inr m'"
      by (auto split: sum.splits)
    note a = addCell_success [OF m1]
    from a(1) have s: "nat seg < length (m_cellsInSeg m)" by (rule valid_ix_nat)
    have "consistent (m_cellsInSeg m1) (m_reverseCellToSegs m1)"
      unfolding a(6) a(7)
      by (rule consistent_add) (rule Cons.prems(1) s a(3) a(4) set_insert_at distinct_insert_at)+
    with Cons.IH [of m1] rest a(9) show ?thesis by simp
  next
    case (RemoveCell nd seg)
    with Cons.prems(2) obtain m1 where m1: "removeCellFromSegment nd seg m = Inr m1"
      and rest: "runOps ops m1 = Inr m'"
      by (auto split: sum.splits)
    note a = removeCell_success [OF m1]
    from a(1) have s: "nat seg < length (m_cellsInSeg m)" by (rule valid_ix_nat)
    have "consistent (m_cellsInSeg m1) (m_reverseCellToSegs m1)"
      unfolding a(6) a(7) using Cons.prems(1) s a(3)
      by (intro consistent_remove) simp_all
    with Cons.IH [of m1] rest a(9) show ?thesis by simp
  qed
qed

lemma sizeBound_add:
  assumes "sizeBound m" "addCellToSegment nd seg m = Inr m'"
  shows "sizeBound m'"
proof -
  note a = addCell_success [OF assms(2)]
  have "int (length (m_reverseCellToSegs m' ! n)) \<le> arch_getCellHeightInRows (m_arch m') n"
    if "n < length (m_reverseCellToSegs m')" "0 \<le> arch_getCellHeightInRows (m_arch m') n" for n
  proof (cases "n = nd")
    case True
    from a(5) that(2) have "int (length (m_reverseCellToSegs m ! nd)) + 1
        \<le> arch_getCellHeightInRows (m_arch m) nd"
      unfolding True a(9) by (simp add: size_ge_def to_size_t_def)
    then show ?thesis using True a(3) unfolding a(7) a(9) by simp
  next
    case False
    then show ?thesis using that assms(1) unfolding a(7) a(9) by (simp add: sizeBound_def)
  qed
  then show ?thesis by (simp add: sizeBound_def)
qed

lemma sizeBound_remove:
  assumes "sizeBound m" "removeCellFromSegment nd seg m = Inr m'"
  shows "sizeBound m'"
proof -
  note a = removeCell_success [OF assms(2)]
  have "int (length (m_reverseCellToSegs m' ! n)) \<le> arch_getCellHeightInRows (m_arch m') n"
    if "n < length (m_reverseCellToSegs m')" "0 \<le> arch_getCellHeightInRows (m_arch m') n" for n
  proof (cases "n = nd")
    case True
    have "length (remove1 (nat seg) (m_reverseCellToSegs m ! nd)) \<le> length (m_reverseCellToSegs m ! nd)"
      by (simp add: length_remove1)
    moreover have "int (length (m_reverseCellToSegs m ! nd)) \<le> arch_getCellHeightInRows (m_arch m) nd"
      using assms(1) a(3) that(2) unfolding True a(9) by (simp add: sizeBound_def)
    ultimately show ?thesis using True a(3) unfolding a(7) a(9) by simp
  next
    case False
    then show ?thesis using that assms(1) unfolding a(7) a(9) by (simp add: sizeBound_def)
  qed
  then show ?thesis by (simp add: sizeBound_def)
qed

lemma sizeBound_runOps:
  assumes "sizeBound m" "runOps ops m = Inr m'"
  shows "sizeBound m'"
  using assms
proof (induction ops arbitrary: m)
  case Nil
  then show ?case by simp
next
  case (Cons op ops)
  show ?case
  proof (cases op)
    case (AddCell nd seg)
    with Cons.prems(2) obtain m1 where m1: "addCellToSegment nd seg m = Inr m1"
      and rest: "runOps ops m1 = Inr m'"
      by (auto split: sum.splits)
    from Cons.IH [OF sizeBound_add [OF Cons.prems(1) m1] rest] show ?thesis .
  next
    case (RemoveCell nd seg)
    with Cons.prems(2) obtain m1 where m1: "removeCellFromSegment nd seg m = Inr m1"
      and rest: "runOps ops m1 = Inr m'"
      by (auto split: sum.splits)
    from Cons.IH [OF sizeBound_remove [OF Cons.prems(1) m1] rest] show ?thesis .
  qed
qed

lemma addToSegs_rev:
  assumes "addToSegs nd segs m = Inr m'" "nd < length (m_reverseCellToSegs m)"
  shows "m_reverseCellToSegs m' = (m_reverseCellToSegs m)[nd := m_reverseCellToSegs m ! nd @ map nat segs]
     \<and> m_arch m' = m_arch m"
  using assms
proof (induction segs arbitrary: m)
  case Nil
  then show ?case by simp
next
  case (Cons s ss)
  from Cons.prems(1) obtain m1 where m1: "addCellToSegment nd s m = Inr m1"
    and rest: "addToSegs nd ss m1 = Inr m'"
    by (auto split: sum.splits)
  note a = addCell_success [OF m1]
  from Cons.IH [OF rest] Cons.prems(2) show ?case unfolding a(7) a(9) by simp
qed

text \<open>
  C7 (as amended).  Start from a state in which nothing is assigned and run any history
  of \<^verbatim>\<open>addCellToSegment\<close> and \<^verbatim>\<open>removeCellFromSegment\<close> calls that ends without a
  fatal error.  In the state reached: a cell is in a segment's cell list exactly when the
  segment is in the cell's reverse-map entry; the entry of a cell that is in some cell
  list has at least one segment, and no entry has more segments than its cell spans rows;
  inserting a cell whose entry is empty into as many segments as it spans rows, one
  \<^verbatim>\<open>addCellToSegment\<close> call per segment, leaves its entry with exactly that many
  segments and every other entry as it was; and \<^verbatim>\<open>addCellToSegment\<close> ends in a fatal
  internal error whenever the segment is already in the cell's entry or one more segment
  would exceed the cell's row span.  (The row span is taken to be non-negative where its
  value is compared with a size.)
\<close>

theorem reverse_map_consistent:
  assumes "emptyAssignment m0"
    and "runOps ops m0 = Inr m"
  shows "(\<forall>nd s. nd < length (m_reverseCellToSegs m) \<and> s < length (m_cellsInSeg m) \<longrightarrow>
            (nd \<in> set (m_cellsInSeg m ! s) \<longleftrightarrow> s \<in> set (m_reverseCellToSegs m ! nd)))
       \<and> (\<forall>nd s. nd < length (m_reverseCellToSegs m) \<and> s < length (m_cellsInSeg m)
              \<and> nd \<in> set (m_cellsInSeg m ! s) \<longrightarrow>
            1 \<le> length (m_reverseCellToSegs m ! nd))
       \<and> (\<forall>nd. nd < length (m_reverseCellToSegs m)
              \<and> 0 \<le> arch_getCellHeightInRows (m_arch m) nd \<longrightarrow>
            int (length (m_reverseCellToSegs m ! nd)) \<le> arch_getCellHeightInRows (m_arch m) nd)
       \<and> (\<forall>nd segs m'. nd < length (m_reverseCellToSegs m)
              \<and> m_reverseCellToSegs m ! nd = []
              \<and> int (length segs) = arch_getCellHeightInRows (m_arch m) nd
              \<and> addToSegs nd segs m = Inr m' \<longrightarrow>
            int (length (m_reverseCellToSegs m' ! nd)) = arch_getCellHeightInRows (m_arch m') nd
            \<and> (\<forall>n. n \<noteq> nd \<longrightarrow> m_reverseCellToSegs m' ! n = m_reverseCellToSegs m ! n))
       \<and> (\<forall>nd seg. valid_ix seg (m_cellsInSeg m) \<and> valid_ix seg (m_segments m)
              \<and> nd < length (m_reverseCellToSegs m)
              \<and> (nat seg \<in> set (m_reverseCellToSegs m ! nd)
                 \<or> (0 \<le> arch_getCellHeightInRows (m_arch m) nd
                    \<and> int (length (m_reverseCellToSegs m ! nd)) + 1
                        > arch_getCellHeightInRows (m_arch m) nd)) \<longrightarrow>
            (\<exists>msg. addCellToSegment nd seg m = Inl (InternalError msg)))"
proof -
  have e1: "m_cellsInSeg m0 ! s = []" if "s < length (m_cellsInSeg m0)" for s
    using assms(1) that by (simp add: emptyAssignment_def)
  have e2: "m_reverseCellToSegs m0 ! n = []" if "n < length (m_reverseCellToSegs m0)" for n
    using assms(1) that by (simp add: emptyAssignment_def)
  have c0: "consistent (m_cellsInSeg m0) (m_reverseCellToSegs m0)"
    by (simp add: consistent_def e1 e2)
  have b0: "sizeBound m0"
    by (simp add: sizeBound_def e2)
  have c: "consistent (m_cellsInSeg m) (m_reverseCellToSegs m)"
    using consistent_runOps [OF c0 assms(2)] by simp
  have bd: "sizeBound m"
    using sizeBound_runOps [OF b0 assms(2)] .
  have p1: "nd \<in> set (m_cellsInSeg m ! s) \<longleftrightarrow> s \<in> set (m_reverseCellToSegs m ! nd)"
    if "nd < length (m_reverseCellToSegs m)" "s < length (m_cellsInSeg m)" for nd s
    using c that unfolding consistent_def by blast
  have p2: "1 \<le> length (m_reverseCellToSegs m ! nd)"
    if "nd < length (m_reverseCellToSegs m)" "s < length (m_cellsInSeg m)"
      "nd \<in> set (m_cellsInSeg m ! s)" for nd s
  proof -
    from p1 [OF that(1,2)] that(3) have "s \<in> set (m_reverseCellToSegs m ! nd)" by simp
    then have "m_reverseCellToSegs m ! nd \<noteq> []" by auto
    then show ?thesis by (simp add: Suc_le_eq)
  qed
  have p3: "int (length (m_reverseCellToSegs m ! nd)) \<le> arch_getCellHeightInRows (m_arch m) nd"
    if "nd < length (m_reverseCellToSegs m)" "0 \<le> arch_getCellHeightInRows (m_arch m) nd" for nd
    using bd that by (simp add: sizeBound_def)
  have p4: "int (length (m_reverseCellToSegs m' ! nd)) = arch_getCellHeightInRows (m_arch m') nd
      \<and> (\<forall>n. n \<noteq> nd \<longrightarrow> m_reverseCellToSegs m' ! n = m_reverseCellToSegs m ! n)"
    if "nd < length (m_reverseCellToSegs m)" "m_reverseCellToSegs m ! nd = []"
      "int (length segs) = arch_getCellHeightInRows (m_arch m) nd"
      "addToSegs nd segs m = Inr m'" for nd segs m'
    using addToSegs_rev [OF that(4,1)] that(1,2,3) by simp
  have p5: "\<exists>msg. addCellToSegment nd seg m = Inl (InternalError msg)"
    if "valid_ix seg (m_cellsInSeg m)" "valid_ix seg (m_segments m)"
      "nd < length (m_reverseCellToSegs m)"
      "nat seg \<in> set (m_reverseCellToSegs m ! nd)
        \<or> (0 \<le> arch_getCellHeightInRows (m_arch m) nd
           \<and> int (length (m_reverseCellToSegs m ! nd)) + 1
               > arch_getCellHeightInRows (m_arch m) nd)"
    for nd seg
  proof -
    from that(4) have "nat seg \<in> set (m_reverseCellToSegs m ! nd)
        \<or> size_ge (length (m_reverseCellToSegs m ! nd)) (arch_getCellHeightInRows (m_arch m) nd)"
      by (auto simp: size_ge_def to_size_t_def)
    then show ?thesis using that(1,2,3)
      unfolding addCellToSegment_def Let_def by auto
  qed
  from p1 p2 p3 p4 p5 show ?thesis by blast
qed

text \<open>
  The claim as first stated asks for an entry as long as the row span in every state
  reached through \<^verbatim>\<open>addCellToSegment\<close>; the two-row node 2 enters its two segments by
  two calls, and after the first its entry has one segment.
\<close>

theorem reverse_map_size_counterexample:
  "case runOps [AddCell 2 1] exMgr of
     Inl e \<Rightarrow> False
   | Inr m \<Rightarrow> 2 \<in> set (m_cellsInSeg m ! 1)
       \<and> int (length (m_reverseCellToSegs m ! 2)) \<noteq> arch_getCellHeightInRows (m_arch m) 2"
  by (simp add: ex_defs op_defs)

theorem reverse_map_consistent_witness:
  "\<exists>m m'. runOps [AddCell 0 0, AddCell 3 1, RemoveCell 0 0, AddCell 0 1] exMgr = Inr m
     \<and> (0 \<in> set (m_cellsInSeg m ! 1)) = (1 \<in> set (m_reverseCellToSegs m ! 0))
     \<and> (0 \<in> set (m_cellsInSeg m ! 0)) = (0 \<in> set (m_reverseCellToSegs m ! 0))
     \<and> 1 \<le> length (m_reverseCellToSegs m ! 3)
     \<and> int (length (m_reverseCellToSegs m ! 3)) \<le> 1
     \<and> addToSegs 2 [1, 2] m = Inr m'
     \<and> int (length (m_reverseCellToSegs m' ! 2)) = 2
     \<and> m_reverseCellToSegs m' ! 0 = m_reverseCellToSegs m ! 0
     \<and> (\<exists>msg. addCellToSegment 3 2 m = Inl (InternalError msg))
     \<and> (\<exists>msg. addCellToSegment 0 1 m = Inl (InternalError msg))"
proof -
  obtain m where
    r: "runOps [AddCell 0 0, AddCell 3 1, RemoveCell 0 0, AddCell 0 1] exMgr = Inr m"
    and cl: "m_cellsInSeg m = [[], [0, 3], [], []]"
    and rv: "m_reverseCellToSegs m = [[1], [], [], [1]]"
    and sg: "length (m_segments m) = 4" and ar: "m_arch m = exArch"
    and nds: "m_nodes m = exNodes"
    by (simp add: ex_defs op_defs)
  have "\<exists>m'. addToSegs 2 [1, 2] m = Inr m' \<and> m_arch m' = exArch"
    using cl rv sg ar nds by (simp add: ex_defs op_defs)
  then obtain m' where r': "addToSegs 2 [1, 2] m = Inr m'" and ar': "m_arch m' = exArch"
    by blast
  have e: "emptyAssignment exMgr"
    by (simp add: emptyAssignment_def exMgr_def)
  have v: "valid_ix 2 (m_cellsInSeg m)" "valid_ix 2 (m_segments m)"
    "valid_ix 1 (m_cellsInSeg m)" "valid_ix 1 (m_segments m)"
    by (simp_all add: valid_ix_def cl sg)
  have h: "arch_getCellHeightInRows (m_arch m) 2 = 2" "arch_getCellHeightInRows (m_arch m) 3 = 1"
    "arch_getCellHeightInRows (m_arch m') 2 = 2"
    by (simp_all add: ar ar' exArch_def)
  note t = reverse_map_consistent [OF e r]
  from t have a: "(0 \<in> set (m_cellsInSeg m ! 1)) = (1 \<in> set (m_reverseCellToSegs m ! 0))"
    "(0 \<in> set (m_cellsInSeg m ! 0)) = (0 \<in> set (m_reverseCellToSegs m ! 0))"
    by (simp_all add: cl rv)
  from t have "3 < length (m_reverseCellToSegs m) \<and> 1 < length (m_cellsInSeg m)
       \<and> 3 \<in> set (m_cellsInSeg m ! 1) \<longrightarrow> 1 \<le> length (m_reverseCellToSegs m ! 3)"
    by blast
  then have b1: "1 \<le> length (m_reverseCellToSegs m ! 3)"
    by (simp add: cl rv)
  from t have "3 < length (m_reverseCellToSegs m)
       \<and> 0 \<le> arch_getCellHeightInRows (m_arch m) 3 \<longrightarrow>
     int (length (m_reverseCellToSegs m ! 3)) \<le> arch_getCellHeightInRows (m_arch m) 3"
    by blast
  then have b2: "int (length (m_reverseCellToSegs m ! 3)) \<le> 1"
    using h by (simp add: rv)
  from t have "2 < length (m_reverseCellToSegs m)
       \<and> m_reverseCellToSegs m ! 2 = []
       \<and> int (length [1, 2 :: int]) = arch_getCellHeightInRows (m_arch m) 2
       \<and> addToSegs 2 [1, 2] m = Inr m' \<longrightarrow>
     int (length (m_reverseCellToSegs m' ! 2)) = arch_getCellHeightInRows (m_arch m') 2
     \<and> (\<forall>n. n \<noteq> 2 \<longrightarrow> m_reverseCellToSegs m' ! n = m_reverseCellToSegs m ! n)"
    by blast
  with r' h have f: "int (length (m_reverseCellToSegs m' ! 2)) = 2"
    "m_reverseCellToSegs m' ! 0 = m_reverseCellToSegs m ! 0"
    by (simp_all add: rv)
  from t have c3: "\<And>nd seg. valid_ix seg (m_cellsInSeg m) \<and> valid_ix seg (m_segments m)
              \<and> nd < length (m_reverseCellToSegs m)
              \<and> (nat seg \<in> set (m_reverseCellToSegs m ! nd)
                 \<or> (0 \<le> arch_getCellHeightInRows (m_arch m) nd
                    \<and> int (length (m_reverseCellToSegs m ! nd)) + 1
                        > arch_getCellHeightInRows (m_arch m) nd)) \<Longrightarrow>
            (\<exists>msg. addCellToSegment nd seg m = Inl (InternalError msg))"
    by blast
  have c: "\<exists>msg. addCellToSegment 3 2 m = Inl (InternalError msg)"
    using v h by (intro c3) (simp add: rv)
  have d: "\<exists>msg. addCellToSegment 0 1 m = Inl (InternalError msg)"
    using v by (intro c3) (simp add: rv)
  from r a b1 b2 r' f c d show ?thesis by blast
qed

section \<open>Segment utilization\<close>

lemma sum_take_drop:
  "(\<Sum>c \<leftarrow> take k xs. f c) + (\<Sum>c \<leftarrow> drop k xs. f c) = (\<Sum>c \<leftarrow> xs. (f c :: int))"
proof -
  have "(\<Sum>c \<leftarrow> take k xs @ drop k xs. f c) = (\<Sum>c \<leftarrow> xs. f c)" by simp
  then show ?thesis by (simp only: map_append sum_list_append)
qed

lemma utilOk_add:
  assumes u: "utilOk m" and r: "addCellToSegment nd seg m = Inr m'"
  shows "utilOk m'"
proof -
  note a = addCell_success [OF r]
  have s: "nat seg < length (m_segments m)" using a(2) by (rule valid_ix_nat)
  have l: "length (m_cellsInSeg m) = length (m_segments m)" using u by (simp add: utilOk_def)
  have "seg_util (m_segments m' ! t) = (\<Sum>c \<leftarrow> m_cellsInSeg m' ! t. ceilWidth (m_nodes m' c))"
    if t: "t < length (m_segments m')" for t
  proof -
    from t have t': "t < length (m_segments m)" by (simp add: a(8))
    have old: "seg_util (m_segments m ! t) = (\<Sum>c \<leftarrow> m_cellsInSeg m ! t. ceilWidth (m_nodes m c))"
      using u t' by (simp add: utilOk_def)
    show ?thesis
    proof (cases "t = nat seg")
      case True
      show ?thesis unfolding a(6) a(8) a(10) True using s l old [unfolded True]
        by (simp add: sum_take_drop addUtil_def)
    next
      case False
      then show ?thesis unfolding a(6) a(8) a(10) using old by simp
    qed
  qed
  then show ?thesis using l by (simp add: utilOk_def a(6) a(8))
qed

lemma utilOk_remove:
  assumes u: "utilOk m" and r: "removeCellFromSegment nd seg m = Inr m'"
  shows "utilOk m'"
proof -
  note a = removeCell_success [OF r]
  have s: "nat seg < length (m_segments m)" using a(2) by (rule valid_ix_nat)
  have l: "length (m_cellsInSeg m) = length (m_segments m)" using u by (simp add: utilOk_def)
  have "seg_util (m_segments m' ! t) = (\<Sum>c \<leftarrow> m_cellsInSeg m' ! t. ceilWidth (m_nodes m' c))"
    if t: "t < length (m_segments m')" for t
  proof -
    from t have t': "t < length (m_segments m)" by (simp add: a(8))
    have old: "seg_util (m_segments m ! t) = (\<Sum>c \<leftarrow> m_cellsInSeg m ! t. ceilWidth (m_nodes m c))"
      using u t' by (simp add: utilOk_def)
    show ?thesis
    proof (cases "t = nat seg")
      case True
      show ?thesis unfolding a(6) a(8) a(10) True using s l old [unfolded True] a(4)
        by (simp add: sum_remove1 remUtil_def)
    next
      case False
      then show ?thesis unfolding a(6) a(8) a(10) using old by simp
    qed
  qed
  then show ?thesis using l by (simp add: utilOk_def a(6) a(8))
qed

lemma ceilWidth_position [simp]:
  "ceilWidth (n\<lparr>nd_left := x, nd_bottom := y\<rparr>) = ceilWidth n"
  by (simp add: ceilWidth_def)

lemma utilOk_setPosition: "utilOk m \<Longrightarrow> utilOk (setPosition nd x y m)"
proof -
  have "ceilWidth (if c = nd then m_nodes m nd\<lparr>nd_left := x, nd_bottom := y\<rparr> else m_nodes m c)
      = ceilWidth (m_nodes m c)" for c
    by simp
  then show "utilOk m \<Longrightarrow> utilOk (setPosition nd x y m)"
    by (simp add: utilOk_def setPosition_def fun_upd_def)
qed

lemma utilOk_removeFromSegs:
  "utilOk m \<Longrightarrow> removeFromSegs nd ss m = Inr m' \<Longrightarrow> utilOk m'"
proof (induction ss arbitrary: m)
  case Nil
  then show ?case by simp
next
  case (Cons s ss)
  from Cons.prems(2) obtain m1 where m1: "removeCellFromSegment nd s m = Inr m1"
    and rest: "removeFromSegs nd ss m1 = Inr m'"
    by (auto split: sum.splits)
  from utilOk_remove [OF Cons.prems(1) m1] rest show ?case by (rule Cons.IH)
qed

lemma utilOk_addToSegs:
  "utilOk m \<Longrightarrow> addToSegs nd ss m = Inr m' \<Longrightarrow> utilOk m'"
proof (induction ss arbitrary: m)
  case Nil
  then show ?case by simp
next
  case (Cons s ss)
  from Cons.prems(2) obtain m1 where m1: "addCellToSegment nd s m = Inr m1"
    and rest: "addToSegs nd ss m1 = Inr m'"
    by (auto split: sum.splits)
  from utilOk_add [OF Cons.prems(1) m1] rest show ?case by (rule Cons.IH)
qed

lemma utilOk_acceptMove_loop:
  "utilOk m \<Longrightarrow> acceptMove_loop ixs m = Inr m' \<Longrightarrow> utilOk m'"
proof (induction ixs arbitrary: m)
  case Nil
  then show ?case by simp
next
  case (Cons i ixs)
  from Cons.prems(2) obtain ndi m1 m3 where
    r1: "removeFromSegs ndi (m_curSeg m ! i) m = Inr m1" and
    r3: "addToSegs ndi (m_newSeg m1 ! i)
           (setPosition ndi (m_newLeft m1 ! i) (m_newBottom m1 ! i) m1) = Inr m3" and
    rest: "acceptMove_loop ixs m3 = Inr m'"
    by (auto split: if_splits option.splits sum.splits)
  have "utilOk m1" using utilOk_removeFromSegs [OF Cons.prems(1) r1] .
  then have "utilOk (setPosition ndi (m_newLeft m1 ! i) (m_newBottom m1 ! i) m1)"
    by (rule utilOk_setPosition)
  then have "utilOk m3" using r3 by (rule utilOk_addToSegs)
  then show ?case using rest by (rule Cons.IH)
qed

lemma removeAllCells_loop_ok:
  assumes "segIdsOk m" "set ixs \<subseteq> {..<length (m_segments m)}"
  shows "\<exists>m'. removeAllCells_loop ixs m = Inr m' \<and> segIdsOk m' \<and>
           length (m_segments m') = length (m_segments m) \<and> m_nodes m' = m_nodes m \<and>
           m_reverseCellToSegs m' = m_reverseCellToSegs m \<and>
           (\<forall>i < length (m_segments m).
              if i \<in> set ixs then m_cellsInSeg m' ! i = [] \<and> seg_util (m_segments m' ! i) = 0
              else m_cellsInSeg m' ! i = m_cellsInSeg m ! i \<and> m_segments m' ! i = m_segments m ! i)"
  using assms
proof (induction ixs arbitrary: m)
  case Nil
  then show ?case by simp
next
  case (Cons i ixs)
  from Cons.prems have i: "i < length (m_segments m)" and
    l: "length (m_cellsInSeg m) = length (m_segments m)" and
    id: "seg_segId (m_segments m ! i) = int i"
    by (simp_all add: segIdsOk_def)
  define m1 where "m1 = m\<lparr>m_cellsInSeg := (m_cellsInSeg m)[i := []],
       m_segments := (m_segments m)[i := (m_segments m ! i)\<lparr>seg_util := 0\<rparr>]\<rparr>"
  have step: "removeAllCells_loop (i # ixs) m = removeAllCells_loop ixs m1"
    using i l id by (simp add: Let_def valid_ix_def m1_def)
  have ok1: "segIdsOk m1"
    using Cons.prems(1) i unfolding segIdsOk_def m1_def
    by (auto simp: nth_list_update)
  have sub: "set ixs \<subseteq> {..<length (m_segments m1)}"
    using Cons.prems(2) by (simp add: m1_def)
  from Cons.IH [OF ok1 sub] obtain m' where
    r: "removeAllCells_loop ixs m1 = Inr m'" and ok: "segIdsOk m'" and
    len: "length (m_segments m') = length (m_segments m1)" and
    nodes: "m_nodes m' = m_nodes m1" and
    rv: "m_reverseCellToSegs m' = m_reverseCellToSegs m1" and
    eachj: "\<And>j. j < length (m_segments m1) \<Longrightarrow>
              (if j \<in> set ixs then m_cellsInSeg m' ! j = [] \<and> seg_util (m_segments m' ! j) = 0
               else m_cellsInSeg m' ! j = m_cellsInSeg m1 ! j \<and> m_segments m' ! j = m_segments m1 ! j)"
    by blast
  have "if j \<in> set (i # ixs) then m_cellsInSeg m' ! j = [] \<and> seg_util (m_segments m' ! j) = 0
        else m_cellsInSeg m' ! j = m_cellsInSeg m ! j \<and> m_segments m' ! j = m_segments m ! j"
    if j: "j < length (m_segments m)" for j
  proof -
    from j have "j < length (m_segments m1)" by (simp add: m1_def)
    from eachj [OF this] show ?thesis
      using i l j by (cases "j = i") (auto simp: m1_def split: if_splits)
  qed
  then show ?case
    unfolding step using r ok len nodes rv by (simp add: m1_def)
qed

lemma removeAll_utilOk:
  assumes "segIdsOk m"
  shows "\<exists>m'. removeAllCellsFromSegments m = Inr m' \<and> utilOk m'"
proof -
  have sub: "set [0..<length (m_segments m)] \<subseteq> {..<length (m_segments m)}" by auto
  from removeAllCells_loop_ok [OF assms sub]
  obtain m1 where r: "removeAllCells_loop [0..<length (m_segments m)] m = Inr m1"
    and ok: "segIdsOk m1" and len: "length (m_segments m1) = length (m_segments m)"
    and e: "\<And>i. i < length (m_segments m) \<Longrightarrow>
               m_cellsInSeg m1 ! i = [] \<and> seg_util (m_segments m1 ! i) = 0"
    by auto
  have "utilOk (m1\<lparr>m_reverseCellToSegs := map (\<lambda>_. []) (m_reverseCellToSegs m1)\<rparr>)"
    using ok len e by (simp add: utilOk_def segIdsOk_def)
  then show ?thesis
    by (simp add: removeAllCellsFromSegments_def r)
qed

lemma seg_util_foldl_addUtil:
  "seg_util (foldl (\<lambda>sg c. addUtil (f c) sg) s0 cells) = seg_util s0 + (\<Sum>c \<leftarrow> cells. f c)"
  by (induction cells arbitrary: s0) (simp_all add: addUtil_def)

lemma sum_list_insort_key:
  "(\<Sum>c \<leftarrow> insort_key k x xs. f c) = (f x :: int) + (\<Sum>c \<leftarrow> xs. f c)"
  by (induction xs) simp_all

lemma sum_list_sort_key:
  "(\<Sum>c \<leftarrow> sort_key k xs. f c) = (\<Sum>c \<leftarrow> xs. (f c :: int))"
  by (induction xs) (simp_all add: sort_key_def sum_list_insort_key)

lemma resortSegment_util:
  assumes ids: "segIdsOk m" and p: "p < length (m_segments m)"
  shows "\<exists>m'. resortSegment p m = Inr m' \<and>
           seg_util (m_segments m' ! p) = (\<Sum>c \<leftarrow> m_cellsInSeg m' ! p. ceilWidth (m_nodes m' c)) \<and>
           (utilOk m \<longrightarrow> utilOk m')"
proof -
  from ids p have l: "length (m_cellsInSeg m) = length (m_segments m)"
    and id: "seg_segId (m_segments m ! p) = int p"
    by (simp_all add: segIdsOk_def)
  define cells where "cells = sort_key (\<lambda>c. centerX (m_nodes m c)) (m_cellsInSeg m ! p)"
  define seg1 where "seg1 = foldl (\<lambda>sg c. addUtil (ceilWidth (m_nodes m c)) sg)
      ((m_segments m ! p)\<lparr>seg_util := 0\<rparr>) cells"
  define m' where "m' = m\<lparr>m_cellsInSeg := (m_cellsInSeg m)[p := cells],
      m_segments := (m_segments m)[p := seg1]\<rparr>"
  have r: "resortSegment p m = Inr m'"
    using p l id by (simp add: resortSegment_def Let_def valid_ix_def m'_def seg1_def cells_def)
  have u1: "seg_util seg1 = (\<Sum>c \<leftarrow> cells. ceilWidth (m_nodes m c))"
    by (simp add: seg1_def seg_util_foldl_addUtil)
  have a: "seg_util (m_segments m' ! p) = (\<Sum>c \<leftarrow> m_cellsInSeg m' ! p. ceilWidth (m_nodes m' c))"
    using p l u1 by (simp add: m'_def)
  have b: "utilOk m'" if u: "utilOk m"
  proof -
    have "seg_util (m_segments m' ! t) = (\<Sum>c \<leftarrow> m_cellsInSeg m' ! t. ceilWidth (m_nodes m' c))"
      if t: "t < length (m_segments m')" for t
    proof (cases "t = p")
      case True
      then show ?thesis using a by simp
    next
      case False
      then show ?thesis using u t by (simp add: m'_def utilOk_def)
    qed
    then show ?thesis using l by (simp add: utilOk_def m'_def)
  qed
  from r a b show ?thesis by blast
qed

text \<open>
  C10.  A segment's utilization is the sum of the (ceilings of the) widths of the cells
  in its cell list.  With segment ids equal to the positions in \<^verbatim>\<open>m_segments\<close>, this
  holds for every segment after \<^verbatim>\<open>removeAllCellsFromSegments\<close> and for the resorted
  segment after \<^verbatim>\<open>resortSegment\<close>; and \<^verbatim>\<open>resortSegment\<close>, \<^verbatim>\<open>addCellToSegment\<close>,
  \<^verbatim>\<open>removeCellFromSegment\<close> and \<^verbatim>\<open>acceptMove\<close> keep it for every segment whenever
  they return.
\<close>

theorem utilization_invariant:
  "(segIdsOk m \<longrightarrow> (\<exists>m'. removeAllCellsFromSegments m = Inr m' \<and> utilOk m'))
   \<and> (segIdsOk m \<and> p < length (m_segments m) \<longrightarrow>
        (\<exists>m'. resortSegment p m = Inr m' \<and>
           seg_util (m_segments m' ! p) = (\<Sum>c \<leftarrow> m_cellsInSeg m' ! p. ceilWidth (m_nodes m' c)) \<and>
           (utilOk m \<longrightarrow> utilOk m')))
   \<and> (\<forall>m'. utilOk m \<and> addCellToSegment nd seg m = Inr m' \<longrightarrow> utilOk m')
   \<and> (\<forall>m'. utilOk m \<and> removeCellFromSegment nd seg m = Inr m' \<longrightarrow> utilOk m')
   \<and> (\<forall>m'. utilOk m \<and> acceptMove m = Inr m' \<longrightarrow> utilOk m')"
  using removeAll_utilOk resortSegment_util utilOk_add utilOk_remove
    utilOk_acceptMove_loop [of m "[0..<m_nMoved m]"]
  unfolding acceptMove_def by blast

theorem utilization_invariant_witness:
  "(\<exists>m'. removeAllCellsFromSegments exMgr1 = Inr m' \<and> seg_util (m_segments m' ! 0) = 0)
   \<and> (\<exists>m'. resortSegment 0 exMgr1 = Inr m' \<and> seg_util (m_segments m' ! 0) = 8)
   \<and> (\<exists>m'. addCellToSegment 1 0 exMgr1 = Inr m' \<and> seg_util (m_segments m' ! 0) = 20)
   \<and> (\<exists>m'. removeCellFromSegment 0 0 exMgr1 = Inr m' \<and> seg_util (m_segments m' ! 0) = 0)
   \<and> (\<exists>m'. acceptMove exMgr2 = Inr m' \<and> seg_util (m_segments m' ! 0) = 0
          \<and> seg_util (m_segments m' ! 1) = 8)"
proof -
  have ids: "segIdsOk exMgr1"
    by (simp add: segIdsOk_def exMgr1_def ex_defs less_Suc_eq numeral_eq_Suc)
  have u1: "utilOk exMgr1"
    by (simp add: utilOk_def exMgr1_def ex_defs ceilWidth_def less_Suc_eq numeral_eq_Suc)
  have u2: "utilOk exMgr2"
    using u1 by (simp add: exMgr2_def addToMoveList_def Let_def utilOk_def)
  have p: "(0::nat) < length (m_segments exMgr1)"
    by (simp add: exMgr1_def ex_defs)
  note t1 = utilization_invariant [of exMgr1 0 1 0]
  note t2 = utilization_invariant [of exMgr1 0 0 0]
  note t3 = utilization_invariant [of exMgr2 0 0 0]
  from t1 ids obtain ma where ra: "removeAllCellsFromSegments exMgr1 = Inr ma" and ua: "utilOk ma"
    by blast
  have ca: "m_cellsInSeg ma ! 0 = []" "0 < length (m_segments ma)"
    using ra by (auto simp: removeAllCellsFromSegments_def exMgr1_def ex_defs valid_ix_def
        numeral_eq_Suc upt_rec)
  from ua ca have a: "seg_util (m_segments ma ! 0) = 0"
    by (simp add: utilOk_def)
  from t1 ids p obtain mb where rb: "resortSegment 0 exMgr1 = Inr mb"
    and ub: "seg_util (m_segments mb ! 0) =
      (\<Sum>c \<leftarrow> m_cellsInSeg mb ! 0. ceilWidth (m_nodes mb c))"
    by blast
  have cb: "m_cellsInSeg mb ! 0 = [0]" "m_nodes mb = exNodes"
    using rb by (auto simp: resortSegment_def exMgr1_def ex_defs valid_ix_def Let_def)
  from ub cb have b: "seg_util (m_segments mb ! 0) = 8"
    by (simp add: ceilWidth_def exNodes_def exNode_def)
  obtain mc where rc: "addCellToSegment 1 0 exMgr1 = Inr mc"
    and cc: "m_cellsInSeg mc ! 0 = [0, 1]" "m_nodes mc = exNodes" "0 < length (m_segments mc)"
    by (simp add: exMgr1_def ex_defs op_defs)
  from t1 u1 rc have "utilOk mc" by blast
  with cc have c: "seg_util (m_segments mc ! 0) = 20"
    by (simp add: utilOk_def ceilWidth_def exNodes_def exNode_def)
  obtain md where rd: "removeCellFromSegment 0 0 exMgr1 = Inr md"
    and cd: "m_cellsInSeg md ! 0 = []" "0 < length (m_segments md)"
    by (simp add: exMgr1_def ex_defs op_defs)
  from t2 u1 rd have "utilOk md" by blast
  with cd have d: "seg_util (m_segments md ! 0) = 0"
    by (simp add: utilOk_def)
  obtain me where re: "acceptMove exMgr2 = Inr me"
    and ce: "m_cellsInSeg me ! 0 = []" "m_cellsInSeg me ! 1 = [0]"
      "1 < length (m_segments me)" "ceilWidth (m_nodes me 0) = 8"
      "0 < length (m_segments me)"
    by (simp add: acceptMove_def exMgr2_def addToMoveList_def exMgr1_def ex_defs op_defs
        moveIndexOk_def setPosition_def)
  from t3 u2 re have "utilOk me" by blast
  then have ue: "\<And>s. s < length (m_segments me) \<Longrightarrow>
      seg_util (m_segments me ! s) = (\<Sum>c \<leftarrow> m_cellsInSeg me ! s. ceilWidth (m_nodes me c))"
    by (simp add: utilOk_def)
  have e: "seg_util (m_segments me ! 0) = 0" "seg_util (m_segments me ! 1) = 8"
    using ue [of 0] ue [of 1] ce by auto
  from ra a rb b rc c rd d re e show ?thesis by blast
qed

section \<open>Rejected proposals leave the shared state alone\<close>

declare shiftRight_loop.simps [simp del] shiftLeft_loop.simps [simp del]

lemma keepsShared_Inl [simp]: "keepsShared m (Inl e)"
  by (simp add: keepsShared_def)

lemma keepsShared_Inr [simp]: "keepsShared m (Inr bm) \<longleftrightarrow> sharedState (snd bm) = sharedState m"
  by (simp add: keepsShared_def)

lemma keepsSharedD: "keepsShared m r \<Longrightarrow> r = Inr (b, m') \<Longrightarrow> sharedState m' = sharedState m"
  by (auto simp: keepsShared_def)

lemma keepsShared_cong: "sharedState m1 = sharedState m \<Longrightarrow> keepsShared m1 r \<Longrightarrow> keepsShared m r"
  by (auto simp: keepsShared_def split: sum.splits)

lemma shared_clearMoveList [simp]: "sharedState (clearMoveList m) = sharedState m"
  by (simp add: sharedState_def clearMoveList_def)

lemma shared_addToMoveList [simp]:
  "sharedState (snd (addToMoveList nd cl cb cs nl nb ns m)) = sharedState m"
  by (simp add: sharedState_def addToMoveList_def Let_def)

lemma shared_addToMoveListMulti [simp]:
  "sharedState (snd (addToMoveListMulti nd cl cb cs nl nb ns m)) = sharedState m"
  by (simp add: sharedState_def addToMoveListMulti_def Let_def)

lemma shared_stageSwap [simp]: "sharedState (snd (stageSwap ndi ndj si sj xi xj m)) = sharedState m"
  by (simp add: stageSwap_def Let_def)

lemma shiftRight_loop_cases:
  assumes "shiftRight_loop sj n originX siteSpacing ndi ndr xj ix m = Inr (b, m')"
  shows "m' = m
    \<or> (\<exists>cl cb x. m' = snd (addToMoveList ndr cl cb sj x cb sj m))
    \<or> (\<exists>cl cb x c. ix < n \<and>
          shiftRight_loop sj n originX siteSpacing ndr c x (Suc ix)
            (snd (addToMoveList ndr cl cb sj x cb sj m)) = Inr (b, m'))"
  using assms
  apply (subst (asm) shiftRight_loop.simps)
  apply (simp only: Let_def split: if_splits)
         apply (simp_all)
  apply blast+
  done

lemma shared_shiftRight_loop:
  "shiftRight_loop sj n originX siteSpacing ndi ndr xj ix m = Inr (b, m')
     \<Longrightarrow> sharedState m' = sharedState m"
proof (induction "n - ix" arbitrary: ndi ndr xj ix m rule: less_induct)
  case less
  from shiftRight_loop_cases [OF less.prems] show ?case
  proof (elim disjE exE conjE)
    fix cl cb x c
    assume lt: "ix < n" and
      r: "shiftRight_loop sj n originX siteSpacing ndr c x (Suc ix)
            (snd (addToMoveList ndr cl cb sj x cb sj m)) = Inr (b, m')"
    from lt have "n - Suc ix < n - ix" by simp
    from less.hyps [OF this r] show ?thesis by simp
  qed simp_all
qed

lemma shiftLeft_loop_cases:
  assumes "shiftLeft_loop sj originX siteSpacing ndi ndl xj ix m = Inr (b, m')"
  shows "m' = m
    \<or> (\<exists>cl cb x. m' = snd (addToMoveList ndl cl cb sj x cb sj m))
    \<or> (\<exists>cl cb x c. ix \<noteq> 0 \<and>
          shiftLeft_loop sj originX siteSpacing ndl c x (ix - 1)
            (snd (addToMoveList ndl cl cb sj x cb sj m)) = Inr (b, m'))"
  using assms
  apply (subst (asm) shiftLeft_loop.simps)
  apply (simp only: Let_def split: if_splits)
         apply (simp_all)
  apply blast+
  done

lemma shared_shiftLeft_loop:
  "shiftLeft_loop sj originX siteSpacing ndi ndl xj ix m = Inr (b, m')
     \<Longrightarrow> sharedState m' = sharedState m"
proof (induction ix arbitrary: ndi ndl xj m rule: less_induct)
  case (less ix)
  from shiftLeft_loop_cases [OF less.prems] show ?case
  proof (elim disjE exE conjE)
    fix cl cb x c
    assume nz: "ix \<noteq> 0" and
      r: "shiftLeft_loop sj originX siteSpacing ndl c x (ix - 1)
            (snd (addToMoveList ndl cl cb sj x cb sj m)) = Inr (b, m')"
    from nz have "ix - 1 < ix" by simp
    from less.IH [OF this r] show ?thesis by simp
  qed simp_all
qed

lemma keeps_shiftRightHelper: "keepsShared m (shiftRightHelper ndi xj sj ndr m)"
proof (cases "shiftRightHelper ndi xj sj ndr m")
  case (Inl e)
  then show ?thesis by simp
next
  case (Inr bm)
  obtain b m' where bm: "bm = (b, m')" by (cases bm)
  from Inr [unfolded bm] have "sharedState m' = sharedState m"
    unfolding shiftRightHelper_def Let_def
    by (simp split: if_splits) (auto dest: shared_shiftRight_loop)
  then show ?thesis by (simp add: Inr bm)
qed

lemma keeps_shiftLeftHelper: "keepsShared m (shiftLeftHelper ndi xj sj ndl m)"
proof (cases "shiftLeftHelper ndi xj sj ndl m")
  case (Inl e)
  then show ?thesis by simp
next
  case (Inr bm)
  obtain b m' where bm: "bm = (b, m')" by (cases bm)
  from Inr [unfolded bm] have "sharedState m' = sharedState m"
    unfolding shiftLeftHelper_def Let_def
    by (simp split: if_splits) (auto dest: shared_shiftLeft_loop)
  then show ?thesis by (simp add: Inr bm)
qed

lemma keeps_shifts:
  assumes "\<forall>f \<in> set shifts. \<forall>x m. keepsShared m (f x m)"
    and "sharedState (snd r) = sharedState m"
  shows "keepsShared m (foldE (\<lambda>f r. if fst r then f x (snd r) else Inr r) shifts r)"
  using assms
proof (induction shifts arbitrary: r)
  case Nil
  then show ?case by simp
next
  case (Cons f fs)
  have fs: "\<forall>g \<in> set fs. \<forall>x m. keepsShared m (g x m)"
    using Cons.prems(1) by simp
  show ?case
  proof (cases "fst r")
    case True
    have k: "keepsShared (snd r) (f x (snd r))" using Cons.prems(1) by simp
    show ?thesis
    proof (cases "f x (snd r)")
      case (Inl e)
      with True show ?thesis by simp
    next
      case (Inr r1)
      with k have "sharedState (snd r1) = sharedState m" using Cons.prems(2) by simp
      with fs have "keepsShared m
          (foldE (\<lambda>f r. if fst r then f x (snd r) else Inr r) fs r1)"
        by (rule Cons.IH)
      with True Inr show ?thesis by simp
    qed
  next
    case False
    from fs Cons.prems(2) have "keepsShared m
        (foldE (\<lambda>f r. if fst r then f x (snd r) else Inr r) fs r)"
      by (rule Cons.IH)
    with False show ?thesis by simp
  qed
qed

lemma keeps_alignAndStage:
  assumes "\<forall>f \<in> set shifts. \<forall>x m. keepsShared m (f x m)"
    and "sharedState m1 = sharedState m"
  shows "keepsShared m (alignAndStage ndi si xj yj sj lx rx shifts m1)"
proof -
  have "keepsShared m (foldE (\<lambda>f r. if fst r then f x (snd r) else Inr r) shifts
          (True, snd (addToMoveList ndi cl cb si x yj sj m1)))" for x cl cb
    using assms(1) by (rule keeps_shifts) (simp add: assms(2))
  then show ?thesis
    unfolding alignAndStage_def Let_def
    by (simp add: assms(2) split: sum.split option.split)
qed

lemma keeps_tryMove2: "keepsShared m (tryMove2 ndi xi yi si xj yj sj m)"
  unfolding tryMove2_def Let_def
  by (simp add: keeps_alignAndStage split: option.split)

lemma keeps_tryMove3: "keepsShared m (tryMove3 ndi xi yi si xj yj sj m)"
  unfolding tryMove3_def Let_def
  by (simp split: option.split sum.split prod.split)

lemma keeps_tryMove1: "keepsShared m (tryMove1 ndi xi yi si xj yj sj m)"
  unfolding tryMove1_def Let_def
  by (simp add: keeps_alignAndStage keeps_shiftRightHelper keeps_shiftLeftHelper
      split: option.split)

lemma keeps_swapApart:
  "sharedState m1 = sharedState m \<Longrightarrow> keepsShared m (swapApart ndi ndj xi si xj sj ix_i ix_j m1)"
  unfolding swapApart_def Let_def
  by (simp split: option.split sum.split)

lemma keeps_swapAdjacent:
  "sharedState m1 = sharedState m \<Longrightarrow> keepsShared m (swapAdjacent ndi ndj xi si xj sj ix_i ix_j m1)"
  unfolding swapAdjacent_def Let_def
  by (simp split: sum.split)

lemma keeps_trySwap1: "keepsShared m (trySwap1 ndi xi yi si xj yj sj m)"
  unfolding trySwap1_def Let_def
  by (simp add: keeps_swapApart keeps_swapAdjacent)

lemma shared_fields:
  assumes "sharedState m' = sharedState m"
  shows "m_nodes m' = m_nodes m" "m_segments m' = m_segments m"
    "m_cellsInSeg m' = m_cellsInSeg m" "m_reverseCellToSegs m' = m_reverseCellToSegs m"
proof -
  have "m_nodes (sharedState m') = m_nodes (sharedState m)"
    "m_segments (sharedState m') = m_segments (sharedState m)"
    "m_cellsInSeg (sharedState m') = m_cellsInSeg (sharedState m)"
    "m_reverseCellToSegs (sharedState m') = m_reverseCellToSegs (sharedState m)"
    using assms by simp_all
  then show "m_nodes m' = m_nodes m" "m_segments m' = m_segments m"
    "m_cellsInSeg m' = m_cellsInSeg m" "m_reverseCellToSegs m' = m_reverseCellToSegs m"
    by (simp_all add: sharedState_def)
qed

text \<open>
  C1.  When \<^verbatim>\<open>tryMove1\<close>, \<^verbatim>\<open>tryMove2\<close>, \<^verbatim>\<open>tryMove3\<close> or \<^verbatim>\<open>trySwap1\<close> returns
  false, the manager it leaves has the same nodes (so every left and bottom position),
  the same segments (so every utilization), the same cell lists and the same reverse
  map as before the call, and indeed the same state outside the staged move list;
  \<^verbatim>\<open>rejectMove\<close> empties the staged list and changes nothing else.
\<close>

theorem rejected_move_keeps_shared_state:
  "(\<forall>m'. tryMove1 ndi xi yi si xj yj sj m = Inr (False, m')
        \<or> tryMove2 ndi xi yi si xj yj sj m = Inr (False, m')
        \<or> tryMove3 ndi xi yi si xj yj sj m = Inr (False, m')
        \<or> trySwap1 ndi xi yi si xj yj sj m = Inr (False, m')
      \<longrightarrow> m_nodes m' = m_nodes m \<and> m_segments m' = m_segments m
          \<and> m_cellsInSeg m' = m_cellsInSeg m
          \<and> m_reverseCellToSegs m' = m_reverseCellToSegs m
          \<and> sharedState m' = sharedState m)
   \<and> m_nodes (rejectMove m) = m_nodes m \<and> m_segments (rejectMove m) = m_segments m
   \<and> m_cellsInSeg (rejectMove m) = m_cellsInSeg m
   \<and> m_reverseCellToSegs (rejectMove m) = m_reverseCellToSegs m
   \<and> sharedState (rejectMove m) = sharedState m
   \<and> stagedMoves (rejectMove m) = []"
proof -
  have a: "sharedState m' = sharedState m"
    if "tryMove1 ndi xi yi si xj yj sj m = Inr (False, m')
        \<or> tryMove2 ndi xi yi si xj yj sj m = Inr (False, m')
        \<or> tryMove3 ndi xi yi si xj yj sj m = Inr (False, m')
        \<or> trySwap1 ndi xi yi si xj yj sj m = Inr (False, m')" for m'
    using that
  proof (elim disjE)
    assume "tryMove1 ndi xi yi si xj yj sj m = Inr (False, m')"
    with keeps_tryMove1 show ?thesis by (rule keepsSharedD)
  next
    assume "tryMove2 ndi xi yi si xj yj sj m = Inr (False, m')"
    with keeps_tryMove2 show ?thesis by (rule keepsSharedD)
  next
    assume "tryMove3 ndi xi yi si xj yj sj m = Inr (False, m')"
    with keeps_tryMove3 show ?thesis by (rule keepsSharedD)
  next
    assume "trySwap1 ndi xi yi si xj yj sj m = Inr (False, m')"
    with keeps_trySwap1 show ?thesis by (rule keepsSharedD)
  qed
  have b: "sharedState (rejectMove m) = sharedState m"
    by (simp add: rejectMove_def)
  have c: "stagedMoves (rejectMove m) = []"
    by (simp add: rejectMove_def clearMoveList_def stagedMoves_def)
  from a b c shared_fields [of _ m] show ?thesis by blast
qed

theorem rejected_move_keeps_shared_state_witness:
  "(\<exists>m'. tryMove1 0 10 0 0 15 10 1 (exMgr3\<lparr>m_maxDispX := 1\<rparr>) = Inr (False, m')
       \<and> m_cellsInSeg m' = [[0, 1], [3, 2], [2], []]
       \<and> m_reverseCellToSegs m' = [[0], [0], [1, 2], [1]]
       \<and> nd_left (m_nodes m' 0) = 10)
   \<and> (\<exists>m'. tryMove2 0 10 0 0 60 0 0 (exMgr3\<lparr>m_maxDispX := 2\<rparr>) = Inr (False, m')
       \<and> m_cellsInSeg m' = [[0, 1], [3, 2], [2], []])
   \<and> (\<exists>m'. tryMove3 2 50 10 1 5 0 0 exMgr3b = Inr (False, m')
       \<and> m_cellsInSeg m' = [[0, 1], [3, 2], [2], []])
   \<and> (\<exists>m'. trySwap1 0 10 0 0 30 0 0 (exMgr3\<lparr>m_maxDispX := 25\<rparr>) = Inr (False, m')
       \<and> m_nMoved m' = 1
       \<and> m_cellsInSeg m' = [[0, 1], [3, 2], [2], []]
       \<and> map seg_util (m_segments m') = [20, 20, 10, 0])"
proof -
  have e1: "case tryMove1 0 10 0 0 15 10 1 (exMgr3\<lparr>m_maxDispX := 1\<rparr>) of
      Inl e \<Rightarrow> False | Inr bm \<Rightarrow> \<not> fst bm" by code_simp
  have e2: "case tryMove2 0 10 0 0 60 0 0 (exMgr3\<lparr>m_maxDispX := 2\<rparr>) of
      Inl e \<Rightarrow> False | Inr bm \<Rightarrow> \<not> fst bm" by code_simp
  have e3: "case tryMove3 2 50 10 1 5 0 0 exMgr3b of
      Inl e \<Rightarrow> False | Inr bm \<Rightarrow> \<not> fst bm" by code_simp
  have e4: "case trySwap1 0 10 0 0 30 0 0 (exMgr3\<lparr>m_maxDispX := 25\<rparr>) of
      Inl e \<Rightarrow> False | Inr bm \<Rightarrow> \<not> fst bm \<and> m_nMoved (snd bm) = 1" by code_simp
  from e1 obtain m1 where r1:
    "tryMove1 0 10 0 0 15 10 1 (exMgr3\<lparr>m_maxDispX := 1\<rparr>) = Inr (False, m1)"
    by (auto split: sum.splits)
  from e2 obtain m2 where r2:
    "tryMove2 0 10 0 0 60 0 0 (exMgr3\<lparr>m_maxDispX := 2\<rparr>) = Inr (False, m2)"
    by (auto split: sum.splits)
  from e3 obtain m3 where r3: "tryMove3 2 50 10 1 5 0 0 exMgr3b = Inr (False, m3)"
    by (auto split: sum.splits)
  from e4 obtain m4 where r4:
    "trySwap1 0 10 0 0 30 0 0 (exMgr3\<lparr>m_maxDispX := 25\<rparr>) = Inr (False, m4)"
    and n4: "m_nMoved m4 = 1"
    by (auto split: sum.splits)
  note t1 = rejected_move_keeps_shared_state
    [where m = "exMgr3\<lparr>m_maxDispX := 1\<rparr>" and ndi = 0 and xi = 10 and yi = 0 and si = 0
      and xj = 15 and yj = 10 and sj = 1]
  note t2 = rejected_move_keeps_shared_state
    [where m = "exMgr3\<lparr>m_maxDispX := 2\<rparr>" and ndi = 0 and xi = 10 and yi = 0 and si = 0
      and xj = 60 and yj = 0 and sj = 0]
  note t3 = rejected_move_keeps_shared_state
    [where m = exMgr3b and ndi = 2 and xi = 50 and yi = 10 and si = 1
      and xj = 5 and yj = 0 and sj = 0]
  note t4 = rejected_move_keeps_shared_state
    [where m = "exMgr3\<lparr>m_maxDispX := 25\<rparr>" and ndi = 0 and xi = 10 and yi = 0 and si = 0
      and xj = 30 and yj = 0 and sj = 0]
  have c1: "m_cellsInSeg m1 = [[0, 1], [3, 2], [2], []]"
    "m_reverseCellToSegs m1 = [[0], [0], [1, 2], [1]]" "nd_left (m_nodes m1 0) = 10"
    using t1 r1 by (simp_all add: exMgr3_def ex_defs)
  have c2: "m_cellsInSeg m2 = [[0, 1], [3, 2], [2], []]"
    using t2 r2 by (simp add: exMgr3_def ex_defs)
  have c3: "m_cellsInSeg m3 = [[0, 1], [3, 2], [2], []]"
    using t3 r3 by (simp add: exMgr3b_def exMgr3_def ex_defs)
  have c4: "m_cellsInSeg m4 = [[0, 1], [3, 2], [2], []]"
    "map seg_util (m_segments m4) = [20, 20, 10, 0]"
    using t4 r4 by (simp_all add: exMgr3_def ex_defs)
  from r1 c1 have w1: "\<exists>m'. tryMove1 0 10 0 0 15 10 1 (exMgr3\<lparr>m_maxDispX := 1\<rparr>) = Inr (False, m')
       \<and> m_cellsInSeg m' = [[0, 1], [3, 2], [2], []]
       \<and> m_reverseCellToSegs m' = [[0], [0], [1, 2], [1]]
       \<and> nd_left (m_nodes m' 0) = 10" by blast
  from r2 c2 have w2: "\<exists>m'. tryMove2 0 10 0 0 60 0 0 (exMgr3\<lparr>m_maxDispX := 2\<rparr>) = Inr (False, m')
       \<and> m_cellsInSeg m' = [[0, 1], [3, 2], [2], []]" by blast
  from r3 c3 have w3: "\<exists>m'. tryMove3 2 50 10 1 5 0 0 exMgr3b = Inr (False, m')
       \<and> m_cellsInSeg m' = [[0, 1], [3, 2], [2], []]" by blast
  from r4 n4 c4 have w4: "\<exists>m'. trySwap1 0 10 0 0 30 0 0 (exMgr3\<lparr>m_maxDispX := 25\<rparr>) = Inr (False, m')
       \<and> m_nMoved m' = 1
       \<and> m_cellsInSeg m' = [[0, 1], [3, 2], [2], []]
       \<and> map seg_util (m_segments m') = [20, 20, 10, 0]" by (intro exI [of _ m4] conjI)
  from w1 w2 w3 w4 show ?thesis by (intro conjI)
qed


section \<open>Multi-height moves\<close>

lemma findSegAt_Some:
  "findSegAt segs reg xj ps = Inr (Some s) \<Longrightarrow>
     list_ex (\<lambda>p. seg_regId (segs ! p) = reg \<and> seg_minX (segs ! p) \<le> xj \<and> xj \<le> seg_maxX (segs ! p)) ps"
  by (induction ps) (auto split: if_splits)

lemma collectSegs_all:
  "collectSegs m reg xj rs = Inr ss \<Longrightarrow>
     length ss \<le> length rs \<and> (length ss = length rs \<longrightarrow> (\<forall>r \<in> set rs. rowHasSeg m reg xj r))"
proof (induction rs arbitrary: ss)
  case Nil
  then show ?case by simp
next
  case (Cons r rs)
  show ?case
  proof (cases "findSegAt (m_segments m) reg xj (m_segsInRow m ! nat r)")
    case (Inl e)
    with Cons.prems show ?thesis by (simp split: if_splits)
  next
    case (Inr o1)
    show ?thesis
    proof (cases o1)
      case None
      with Inr Cons.prems show ?thesis by (simp split: if_splits)
    next
      case (Some s)
      with Inr Cons.prems obtain ss' where ss': "collectSegs m reg xj rs = Inr ss'" "ss = s # ss'"
        by (auto split: if_splits sum.splits)
      from findSegAt_Some [OF Inr [unfolded Some]] have "rowHasSeg m reg xj r"
        by (simp add: rowHasSeg_def)
      with Cons.IH [OF ss'(1)] ss'(2) show ?thesis by simp
    qed
  qed
qed

lemma clear_fields [simp]:
  "m_segsInRow (clearMoveList m) = m_segsInRow m"
  "m_segments (clearMoveList m) = m_segments m"
  "m_arch (clearMoveList m) = m_arch m"
  "m_nodes (clearMoveList m) = m_nodes m"
  "m_cellsInSeg (clearMoveList m) = m_cellsInSeg m"
  "m_reverseCellToSegs (clearMoveList m) = m_reverseCellToSegs m"
  "m_nMoved (clearMoveList m) = 0"
  "m_moveLimit (clearMoveList m) = m_moveLimit m"
  "m_movedNodes (clearMoveList m) = m_movedNodes m"
  by (simp_all add: clearMoveList_def)

lemma collectSegs_clear [simp]:
  "collectSegs (clearMoveList m) reg xj rs = collectSegs m reg xj rs"
  by (induction rs) (simp_all split: sum.split option.split)

lemma tryMove3_rb_clear [simp]: "tryMove3_rb (clearMoveList m) ndi sj = tryMove3_rb m ndi sj"
  by (simp add: tryMove3_rb_def)

lemma tryMove3_True_form:
  "case tryMove3 ndi xi yi si xj yj sj m of
     Inl e \<Rightarrow> True
   | Inr bm \<Rightarrow> fst bm \<longrightarrow>
       1 < arch_getCellHeightInRows (m_arch m) ndi
       \<and> (\<exists>segs. collectSegs m (nd_regionId (m_nodes m ndi)) xj
                     [tryMove3_rb m ndi sj ..
                      tryMove3_rb m ndi sj + arch_getCellHeightInRows (m_arch m) ndi - 1] = Inr segs
                 \<and> int (length segs) = arch_getCellHeightInRows (m_arch m) ndi)
       \<and> (\<exists>cl cb cs x y ns. addToMoveListMulti ndi cl cb cs x y ns (clearMoveList m) = bm)"
  unfolding tryMove3_def Let_def
  by (simp add: size_ne_def to_size_t_def split: option.split sum.split prod.split)
    (intro impI allI, simp, blast)

text \<open>
  The rows \<^verbatim>\<open>tryMove3\<close> examines are \<open>rb .. rb + S - 1\<close> (\<open>S\<close> the cell's row span),
  with \<open>rb\<close> the row of the target segment lowered while \<open>rb + S\<close> is at least the
  number of rows.  If one of these rows has no segment with the cell's region id whose
  \<open>[minX, maxX]\<close> holds the target x, every return value is false; and when it returns
  true (on a manager with the constructor's move list) exactly one cell is staged, the
  moved cell itself.
\<close>

theorem tryMove3_needs_every_row:
  "(\<forall>b m'. tryMove3 ndi xi yi si xj yj sj m = Inr (b, m')
        \<and> (\<exists>r. tryMove3_rb m ndi sj \<le> r
              \<and> r \<le> tryMove3_rb m ndi sj + arch_getCellHeightInRows (m_arch m) ndi - 1
              \<and> \<not> rowHasSeg m (nd_regionId (m_nodes m ndi)) xj r)
      \<longrightarrow> \<not> b)
   \<and> (\<forall>m'. moveListSized m \<and> tryMove3 ndi xi yi si xj yj sj m = Inr (True, m')
      \<longrightarrow> length (stagedMoves m') = 1 \<and> mv_node (stagedMoves m' ! 0) = Some ndi)"
proof -
  have p1: "\<not> b" if a: "tryMove3 ndi xi yi si xj yj sj m = Inr (b, m')"
    and r: "tryMove3_rb m ndi sj \<le> r"
      "r \<le> tryMove3_rb m ndi sj + arch_getCellHeightInRows (m_arch m) ndi - 1"
      "\<not> rowHasSeg m (nd_regionId (m_nodes m ndi)) xj r" for b m' r
  proof
    assume b
    with a tryMove3_True_form [where ndi = ndi and xi = xi and yi = yi and si = si
        and xj = xj and yj = yj and sj = sj and m = m]
    obtain segs where s: "1 < arch_getCellHeightInRows (m_arch m) ndi"
      "collectSegs m (nd_regionId (m_nodes m ndi)) xj
         [tryMove3_rb m ndi sj ..
          tryMove3_rb m ndi sj + arch_getCellHeightInRows (m_arch m) ndi - 1] = Inr segs"
      "int (length segs) = arch_getCellHeightInRows (m_arch m) ndi"
      by auto
    from s(1,3) have "length segs = length [tryMove3_rb m ndi sj ..
          tryMove3_rb m ndi sj + arch_getCellHeightInRows (m_arch m) ndi - 1]"
      by simp
    with collectSegs_all [OF s(2)] r(1,2) have "rowHasSeg m (nd_regionId (m_nodes m ndi)) xj r"
      by simp
    with r(3) show False by simp
  qed
  have p2: "length (stagedMoves m') = 1 \<and> mv_node (stagedMoves m' ! 0) = Some ndi"
    if s: "moveListSized m" and a: "tryMove3 ndi xi yi si xj yj sj m = Inr (True, m')" for m'
  proof -
    from a tryMove3_True_form [where ndi = ndi and xi = xi and yi = yi and si = si
        and xj = xj and yj = yj and sj = sj and m = m]
    obtain cl cb cs x y ns where
      e: "addToMoveListMulti ndi cl cb cs x y ns (clearMoveList m) = (True, m')"
      by auto
    from s have "length (m_movedNodes m) = 10" by (simp add: moveListSized_def)
    with e have "m_nMoved m' = 1 \<and> m_movedNodes m' ! 0 = Some ndi"
      by (auto simp: addToMoveListMulti_def Let_def split: if_splits)
    then show ?thesis
      by (simp add: stagedMoves_def stagedEntry_def)
  qed
  from p1 p2 show ?thesis by blast
qed

theorem tryMove3_needs_every_row_witness:
  "(\<exists>m'. tryMove3 2 50 10 1 5 0 0 exMgr3b = Inr (False, m'))
   \<and> (\<exists>m'. tryMove3 2 50 10 1 5 0 0 exMgr3 = Inr (True, m')
        \<and> length (stagedMoves m') = 1 \<and> mv_node (stagedMoves m' ! 0) = Some 2)"
proof -
  have e1: "case tryMove3 2 50 10 1 5 0 0 exMgr3b of Inl e \<Rightarrow> False | Inr bm \<Rightarrow> True"
    by code_simp
  have h: "tryMove3_rb exMgr3b 2 0 \<le> 1
      \<and> 1 \<le> tryMove3_rb exMgr3b 2 0 + arch_getCellHeightInRows (m_arch exMgr3b) 2 - 1
      \<and> \<not> rowHasSeg exMgr3b (nd_regionId (m_nodes exMgr3b 2)) 5 1"
    by code_simp
  have e2: "case tryMove3 2 50 10 1 5 0 0 exMgr3 of Inl e \<Rightarrow> False | Inr bm \<Rightarrow> fst bm"
    by code_simp
  have s: "moveListSized exMgr3"
    by (simp add: moveListSized_def exMgr3_def exMgr_def)
  from e1 obtain b1 m1 where r1: "tryMove3 2 50 10 1 5 0 0 exMgr3b = Inr (b1, m1)"
    by (auto split: sum.splits)
  from e2 obtain m2 where r2: "tryMove3 2 50 10 1 5 0 0 exMgr3 = Inr (True, m2)"
    by (auto split: sum.splits)
  note t1 = tryMove3_needs_every_row
    [where m = exMgr3b and ndi = 2 and xi = 50 and yi = 10 and si = 1
      and xj = 5 and yj = 0 and sj = 0]
  note t2 = tryMove3_needs_every_row
    [where m = exMgr3 and ndi = 2 and xi = 50 and yi = 10 and si = 1
      and xj = 5 and yj = 0 and sj = 0]
  from t1 r1 h have "\<not> b1" by blast
  with r1 have a: "tryMove3 2 50 10 1 5 0 0 exMgr3b = Inr (False, m1)" by simp
  from t2 s r2 have b: "length (stagedMoves m2) = 1 \<and> mv_node (stagedMoves m2 ! 0) = Some 2"
    by blast
  from a r2 b show ?thesis by blast
qed

text \<open>
  C6.  The rows derived from the target are not always the rows the target maps to:
  the lowering loop tests \<open>rb + S \<ge> number of rows\<close>, so a cell that would fit exactly
  under the top of the row stack is moved one row down.  With four rows, the two-row
  node 2 and a target in the segment of row 2, the target maps to rows 2 and 3, and row 3
  has no segment holding the target x = 5; yet \<^verbatim>\<open>tryMove3\<close> examines rows 1 and 2 and
  returns true, staging the one cell into the segments of rows 1 and 2 at y = 10.
\<close>

theorem tryMove3_lowers_top_row:
  "seg_rowId (m_segments exMgr4 ! 2) = 2
   \<and> arch_getCellHeightInRows (m_arch exMgr4) 2 = 2
   \<and> length (arch_rows (m_arch exMgr4)) = 4
   \<and> rowHasSeg exMgr4 (nd_regionId (m_nodes exMgr4 2)) 5 2
   \<and> \<not> rowHasSeg exMgr4 (nd_regionId (m_nodes exMgr4 2)) 5 3
   \<and> tryMove3_rb exMgr4 2 2 = 1
   \<and> (\<exists>m'. tryMove3 2 50 0 0 5 20 2 exMgr4 = Inr (True, m')
         \<and> stagedMoves m' =
             [\<lparr>mv_node = Some 2, mv_curLeft = 50, mv_curBottom = 0, mv_curSeg = [0, 1],
               mv_newLeft = 5, mv_newBottom = 10, mv_newSeg = [1, 2]\<rparr>])"
proof -
  have a: "seg_rowId (m_segments exMgr4 ! 2) = 2
      \<and> arch_getCellHeightInRows (m_arch exMgr4) 2 = 2
      \<and> length (arch_rows (m_arch exMgr4)) = 4
      \<and> rowHasSeg exMgr4 (nd_regionId (m_nodes exMgr4 2)) 5 2
      \<and> \<not> rowHasSeg exMgr4 (nd_regionId (m_nodes exMgr4 2)) 5 3
      \<and> tryMove3_rb exMgr4 2 2 = 1"
    by code_simp
  have "case tryMove3 2 50 0 0 5 20 2 exMgr4 of
          Inl e \<Rightarrow> False
        | Inr bm \<Rightarrow> fst bm
            \<and> stagedMoves (snd bm) =
                [\<lparr>mv_node = Some 2, mv_curLeft = 50, mv_curBottom = 0, mv_curSeg = [0, 1],
                  mv_newLeft = 5, mv_newBottom = 10, mv_newSeg = [1, 2]\<rparr>]"
    by code_simp
  then have "\<exists>m'. tryMove3 2 50 0 0 5 20 2 exMgr4 = Inr (True, m')
         \<and> stagedMoves m' =
             [\<lparr>mv_node = Some 2, mv_curLeft = 50, mv_curBottom = 0, mv_curSeg = [0, 1],
               mv_newLeft = 5, mv_newBottom = 10, mv_newSeg = [1, 2]\<rparr>]"
    by (cases "tryMove3 2 50 0 0 5 20 2 exMgr4") auto
  with a show ?thesis by blast
qed

section \<open>The closest segment\<close>

lemma bestOk_same:
  assumes "bestOk nd segs M d b" "M' = M"
  shows "bestOk nd segs M' d b"
  using assms by simp

lemma bestOk_insert_keep:
  assumes ok: "bestOk nd segs M d b" and b: "b \<noteq> None"
    and nl: "\<not> lt_cost (Some (segHori nd (segs ! p) + v)) d"
  shows "bestOk nd segs (insert (v, p) M) d b"
proof -
  from b obtain q where q: "b = Some q" by auto
  with ok obtain w where w: "(w, q) \<in> M" "d = Some (segHori nd (segs ! q) + w)"
    "\<forall>(v', p') \<in> M. segHori nd (segs ! q) + w \<le> segHori nd (segs ! p') + v'"
    by (auto simp: bestOk_def)
  from nl w(2) have "segHori nd (segs ! q) + w \<le> segHori nd (segs ! p) + v"
    by (simp add: lt_cost_def)
  with w show ?thesis unfolding bestOk_def q by auto
qed

lemma bestOk_insert_new:
  assumes ok: "bestOk nd segs M d b"
    and c: "b = None \<or> lt_cost (Some (segHori nd (segs ! p) + v)) d"
  shows "bestOk nd segs (insert (v, p) M) (Some (segHori nd (segs ! p) + v)) (Some p)"
proof (cases b)
  case None
  with ok have "M = {}" by (simp add: bestOk_def)
  then show ?thesis by (simp add: bestOk_def)
next
  case (Some q)
  with ok obtain w where w: "(w, q) \<in> M" "d = Some (segHori nd (segs ! q) + w)"
    "\<forall>(v', p') \<in> M. segHori nd (segs ! q) + w \<le> segHori nd (segs ! p') + v'"
    by (auto simp: bestOk_def)
  from c Some w(2) have "segHori nd (segs ! p) + v < segHori nd (segs ! q) + w"
    by (simp add: lt_cost_def)
  with w(3) show ?thesis unfolding bestOk_def by fastforce
qed

lemma matching_insert:
  "matching nd segs (insert (v, p) C) =
     (if seg_regId (segs ! p) = nd_regionId nd then insert (v, p) (matching nd segs C)
      else matching nd segs C)"
  by (auto simp: matching_def)

lemma fitting_insert:
  "fitting nd segs (insert (v, p) C) =
     (if seg_regId (segs ! p) = nd_regionId nd \<and> segFits nd (segs ! p)
      then insert (v, p) (fitting nd segs C) else fitting nd segs C)"
  by (auto simp: fitting_def)

lemma stOk_step:
  assumes "stOk nd segs C st"
  shows "stOk nd segs (insert (v, p) C) (closestStep nd segs v p st)"
proof (cases "seg_regId (segs ! p) = nd_regionId nd")
  case False
  then show ?thesis using assms
    by (simp add: stOk_def closestStep_def matching_insert fitting_insert)
next
  case True
  from assms have o1: "bestOk nd segs (matching nd segs C) (cl_dist1 st) (cl_best1 st)"
    and o2: "bestOk nd segs (fitting nd segs C) (cl_dist2 st) (cl_best2 st)"
    by (simp_all add: stOk_def)
  let ?c = "Some (segHori nd (segs ! p) + v)"
  have a: "bestOk nd segs (insert (v, p) (matching nd segs C))
      (if cl_best1 st = None \<or> lt_cost ?c (cl_dist1 st) then ?c else cl_dist1 st)
      (if cl_best1 st = None \<or> lt_cost ?c (cl_dist1 st) then Some p else cl_best1 st)"
    using bestOk_insert_new [OF o1] bestOk_insert_keep [OF o1] by auto
  have b: "bestOk nd segs (insert (v, p) (fitting nd segs C))
      (if cl_best2 st = None \<or> lt_cost ?c (cl_dist2 st) then ?c else cl_dist2 st)
      (if cl_best2 st = None \<or> lt_cost ?c (cl_dist2 st) then Some p else cl_best2 st)"
    using bestOk_insert_new [OF o2] bestOk_insert_keep [OF o2] by auto
  show ?thesis
    using True a b o2
    by (auto simp: stOk_def closestStep_def Let_def matching_insert fitting_insert)
qed

lemma stOk_row:
  assumes "stOk nd segs C st"
  shows "stOk nd segs (C \<union> (Pair v ` set ptrs)) (closestRow nd segs v ptrs st)"
  using assms unfolding closestRow_def
proof (induction ptrs arbitrary: C st)
  case Nil
  then show ?case by simp
next
  case (Cons p ps)
  from Cons.IH [OF stOk_step [OF Cons.prems, of v p]]
  show ?case by (simp add: Un_commute insert_commute Un_insert_left)
qed

lemma stOk_dist:
  assumes "stOk nd segs C st"
  shows "(cl_dist1 st \<noteq> None \<longrightarrow> cl_best1 st \<noteq> None) \<and> (cl_dist2 st \<noteq> None \<longrightarrow> cl_best2 st \<noteq> None)"
  using assms by (auto simp: stOk_def bestOk_def split: option.splits)

lemma segHori_nonneg: "0 \<le> segHori nd sg"
  by (simp add: segHori_def Let_def)

lemma closestStep_skip:
  assumes "stOk nd segs C st" "\<not> (le_dist v (cl_dist1 st) \<or> le_dist v (cl_dist2 st))"
  shows "closestStep nd segs v p st = st"
proof -
  from assms(2) obtain d1 d2 where d: "cl_dist1 st = Some d1" "cl_dist2 st = Some d2" "d1 < v" "d2 < v"
    by (auto simp: le_dist_def split: option.splits)
  with stOk_dist [OF assms(1)] have b: "cl_best1 st \<noteq> None" "cl_best2 st \<noteq> None" by auto
  from d segHori_nonneg [of nd "segs ! p"]
  have "\<not> lt_cost (Some (segHori nd (segs ! p) + v)) (cl_dist1 st)"
    "\<not> lt_cost (Some (segHori nd (segs ! p) + v)) (cl_dist2 st)"
    by (simp_all add: lt_cost_def)
  with b show ?thesis by (auto simp: closestStep_def Let_def)
qed

lemma closestRow_skip:
  assumes "stOk nd segs C st" "\<not> (le_dist v (cl_dist1 st) \<or> le_dist v (cl_dist2 st))"
  shows "closestRow nd segs v ptrs st = st"
  unfolding closestRow_def
  by (induction ptrs) (simp_all add: closestStep_skip [OF assms])

lemma offset_eq:
  assumes "stOk nd segs C st"
  shows "closestOffset nd segs sir n h row k st = exhaustiveOffset nd segs sir n h row k st
    \<and> stOk nd segs (C \<union> rowCands sir h k (row - k) (row - k \<ge> 0)
                       \<union> rowCands sir h k (row + k) (row + k \<le> n - 1))
         (exhaustiveOffset nd segs sir n h row k st)"
proof -
  let ?st1 = "if row - k \<ge> 0 then closestRow nd segs (k * h) (sir ! nat (row - k)) st else st"
  let ?C1 = "C \<union> rowCands sir h k (row - k) (row - k \<ge> 0)"
  have e1: "(if row - k \<ge> 0 \<and> (le_dist (k * h) (cl_dist1 st) \<or> le_dist (k * h) (cl_dist2 st))
            then closestRow nd segs (k * h) (sir ! nat (row - k)) st else st) = ?st1"
    using closestRow_skip [OF assms, of "k * h"] by auto
  have s1: "stOk nd segs ?C1 ?st1"
    using stOk_row [OF assms, of "k * h"] assms by (simp add: rowCands_def)
  let ?st2 = "if row + k \<le> n - 1 then closestRow nd segs (k * h) (sir ! nat (row + k)) ?st1 else ?st1"
  have e2: "(if row + k \<le> n - 1 \<and> (le_dist (k * h) (cl_dist1 ?st1) \<or> le_dist (k * h) (cl_dist2 ?st1))
            then closestRow nd segs (k * h) (sir ! nat (row + k)) ?st1 else ?st1) = ?st2"
    using closestRow_skip [OF s1, of "k * h"] by auto
  have s2: "stOk nd segs (?C1 \<union> rowCands sir h k (row + k) (row + k \<le> n - 1)) ?st2"
    using stOk_row [OF s1, of "k * h"] s1 by (simp add: rowCands_def)
  have x: "exhaustiveOffset nd segs sir n h row k st = ?st2"
    by (simp add: exhaustiveOffset_def Let_def)
  have c: "closestOffset nd segs sir n h row k st = ?st2"
    unfolding closestOffset_def Let_def e1 e2 ..
  from x c s2 show ?thesis by simp
qed

lemma visitedI:
  "0 \<le> r \<Longrightarrow> r < n \<Longrightarrow> \<bar>r - row\<bar> \<le> k \<Longrightarrow> p \<in> set (sir ! nat r)
     \<Longrightarrow> (\<bar>r - row\<bar> * h, p) \<in> visited sir n h row k"
  unfolding visited_def by blast

lemma visitedE:
  assumes "x \<in> visited sir n h row k"
  obtains r p where "x = (\<bar>r - row\<bar> * h, p)" "0 \<le> r" "r < n" "\<bar>r - row\<bar> \<le> k" "p \<in> set (sir ! nat r)"
  using assms unfolding visited_def by blast

lemma visited_0:
  assumes "0 \<le> row" "row < n"
  shows "visited sir n h row 0 = Pair (0::int) ` set (sir ! nat row)"
proof (intro set_eqI iffI)
  fix x assume "x \<in> visited sir n h row 0"
  then obtain r p where r: "x = (\<bar>r - row\<bar> * h, p)" "0 \<le> r" "r < n" "\<bar>r - row\<bar> \<le> 0"
    "p \<in> set (sir ! nat r)"
    by (rule visitedE)
  from r(4) have "r = row" by linarith
  with r show "x \<in> Pair (0::int) ` set (sir ! nat row)" by simp
next
  fix x assume "x \<in> Pair (0::int) ` set (sir ! nat row)"
  then obtain p where p: "x = (0, p)" "p \<in> set (sir ! nat row)" by blast
  have "\<bar>row - row\<bar> \<le> 0" by simp
  from visitedI [OF assms(1) assms(2) this p(2), of h] p(1)
  show "x \<in> visited sir n h row 0" by simp
qed

lemma visited_step:
  assumes "0 \<le> row" "row < n" "1 \<le> k"
  shows "visited sir n h row k =
     visited sir n h row (k - 1) \<union> rowCands sir h k (row - k) (row - k \<ge> 0)
       \<union> rowCands sir h k (row + k) (row + k \<le> n - 1)"
proof (intro set_eqI iffI)
  fix x assume "x \<in> visited sir n h row k"
  then obtain r p where r: "x = (\<bar>r - row\<bar> * h, p)" "0 \<le> r" "r < n" "\<bar>r - row\<bar> \<le> k"
    "p \<in> set (sir ! nat r)"
    by (rule visitedE)
  from r(4) assms(3) have "\<bar>r - row\<bar> \<le> k - 1 \<or> r = row - k \<or> r = row + k" by linarith
  then consider "\<bar>r - row\<bar> \<le> k - 1" | "r = row - k" | "r = row + k" by blast
  then show "x \<in> visited sir n h row (k - 1) \<union> rowCands sir h k (row - k) (row - k \<ge> 0)
     \<union> rowCands sir h k (row + k) (row + k \<le> n - 1)"
  proof cases
    case 1
    from visitedI [OF r(2,3) 1 r(5)] r(1) show ?thesis by simp
  next
    case 2
    with assms(3) have "\<bar>r - row\<bar> = k" by linarith
    with 2 r have "x \<in> rowCands sir h k (row - k) (row - k \<ge> 0)"
      by (simp add: rowCands_def)
    then show ?thesis by simp
  next
    case 3
    with assms(3) have "\<bar>r - row\<bar> = k" by linarith
    with 3 r have "x \<in> rowCands sir h k (row + k) (row + k \<le> n - 1)"
      by (simp add: rowCands_def)
    then show ?thesis by simp
  qed
next
  fix x assume "x \<in> visited sir n h row (k - 1) \<union> rowCands sir h k (row - k) (row - k \<ge> 0)
     \<union> rowCands sir h k (row + k) (row + k \<le> n - 1)"
  then consider "x \<in> visited sir n h row (k - 1)"
    | "row - k \<ge> 0" "x \<in> Pair (k * h) ` set (sir ! nat (row - k))"
    | "row + k \<le> n - 1" "x \<in> Pair (k * h) ` set (sir ! nat (row + k))"
    unfolding rowCands_def by (auto split: if_splits)
  then show "x \<in> visited sir n h row k"
  proof cases
    case 1
    then obtain r p where r: "x = (\<bar>r - row\<bar> * h, p)" "0 \<le> r" "r < n" "\<bar>r - row\<bar> \<le> k - 1"
      "p \<in> set (sir ! nat r)"
      by (rule visitedE)
    from r(4) have "\<bar>r - row\<bar> \<le> k" by linarith
    from visitedI [OF r(2,3) this r(5)] r(1) show ?thesis by simp
  next
    case 2
    then obtain p where p: "x = (k * h, p)" "p \<in> set (sir ! nat (row - k))" by blast
    from assms 2(1) have b: "row - k < n" "\<bar>(row - k) - row\<bar> \<le> k" "\<bar>(row - k) - row\<bar> = k"
      by linarith+
    from visitedI [OF 2(1) b(1) b(2) p(2), of h] b(3) p(1) show ?thesis by simp
  next
    case 3
    then obtain p where p: "x = (k * h, p)" "p \<in> set (sir ! nat (row + k))" by blast
    from assms 3(1) have b: "0 \<le> row + k" "row + k < n" "\<bar>(row + k) - row\<bar> \<le> k"
      "\<bar>(row + k) - row\<bar> = k"
      by linarith+
    from visitedI [OF b(1) b(2) b(3) p(2), of h] b(4) p(1) show ?thesis by simp
  qed
qed

lemma stOk_init: "stOk nd segs {} closestInit"
  by (simp add: stOk_def bestOk_def closestInit_def matching_def fitting_def)

lemma rounds_eq:
  assumes "0 \<le> row" "row < n" "stOk nd segs (visited sir n h row 0) st0"
  shows "fold (closestOffset nd segs sir n h row) [1..int k] st0
       = fold (exhaustiveOffset nd segs sir n h row) [1..int k] st0
    \<and> stOk nd segs (visited sir n h row (int k))
         (fold (exhaustiveOffset nd segs sir n h row) [1..int k] st0)"
proof (induction k)
  case 0
  with assms(3) show ?case by simp
next
  case (Suc k)
  have u: "[1..int (Suc k)] = [1..int k] @ [int k + 1]"
    using upto_rec2 [of 1 "int k + 1"] by (simp add: add.commute)
  let ?st = "fold (exhaustiveOffset nd segs sir n h row) [1..int k] st0"
  from Suc.IH have ok: "stOk nd segs (visited sir n h row (int k)) ?st" by simp
  from offset_eq [OF ok, of sir n h row "int k + 1"]
    visited_step [OF assms(1,2), of "int k + 1" sir h]
  have "closestOffset nd segs sir n h row (int k + 1) ?st
      = exhaustiveOffset nd segs sir n h row (int k + 1) ?st"
    and "stOk nd segs (visited sir n h row (int k + 1))
      (exhaustiveOffset nd segs sir n h row (int k + 1) ?st)"
    by simp_all
  with Suc.IH show ?case unfolding u by (simp add: add.commute)
qed

lemma visited_all:
  assumes "0 \<le> row" "row < n" "0 \<le> r" "r < n" "p \<in> set (sir ! nat r)"
  shows "(\<bar>r - row\<bar> * h, p) \<in> visited sir n h row n"
proof -
  from assms have "\<bar>r - row\<bar> \<le> n" by linarith
  from visitedI [OF assms(3,4) this assms(5)] show ?thesis .
qed

lemma visited_matching:
  assumes "0 \<le> row" "row < m_numSingleHeightRows m"
    "row = arch_find_closest_row (m_arch m) (nd_bottom (m_nodes m ndp))"
  shows "(v, p) \<in> matching (m_nodes m ndp) (m_segments m)
            (visited (m_segsInRow m) (m_numSingleHeightRows m) (m_singleRowHeight m) row
               (m_numSingleHeightRows m))
     \<longleftrightarrow> (\<exists>r. closestCandidate m ndp r p \<and> v = \<bar>r - row\<bar> * m_singleRowHeight m)"
proof
  assume "(v, p) \<in> matching (m_nodes m ndp) (m_segments m)
            (visited (m_segsInRow m) (m_numSingleHeightRows m) (m_singleRowHeight m) row
               (m_numSingleHeightRows m))"
  then have v: "(v, p) \<in> visited (m_segsInRow m) (m_numSingleHeightRows m) (m_singleRowHeight m) row
               (m_numSingleHeightRows m)"
    and g: "seg_regId (m_segments m ! p) = nd_regionId (m_nodes m ndp)"
    by (simp_all add: matching_def)
  from v obtain r p' where r: "(v, p) = (\<bar>r - row\<bar> * m_singleRowHeight m, p')" "0 \<le> r"
    "r < m_numSingleHeightRows m" "p' \<in> set (m_segsInRow m ! nat r)"
    by (rule visitedE)
  with g have "closestCandidate m ndp r p \<and> v = \<bar>r - row\<bar> * m_singleRowHeight m"
    by (simp add: closestCandidate_def)
  then show "\<exists>r. closestCandidate m ndp r p \<and> v = \<bar>r - row\<bar> * m_singleRowHeight m" ..
next
  assume "\<exists>r. closestCandidate m ndp r p \<and> v = \<bar>r - row\<bar> * m_singleRowHeight m"
  then obtain r where r: "0 \<le> r" "r < m_numSingleHeightRows m" "p \<in> set (m_segsInRow m ! nat r)"
    "seg_regId (m_segments m ! p) = nd_regionId (m_nodes m ndp)"
    "v = \<bar>r - row\<bar> * m_singleRowHeight m"
    by (auto simp: closestCandidate_def)
  from visited_all [OF assms(1,2) r(1,2,3), of "m_singleRowHeight m"] r(4,5)
  show "(v, p) \<in> matching (m_nodes m ndp) (m_segments m)
            (visited (m_segsInRow m) (m_numSingleHeightRows m) (m_singleRowHeight m) row
               (m_numSingleHeightRows m))"
    by (simp add: matching_def)
qed

lemma fitting_matching:
  "(v, p) \<in> fitting nd segs C \<longleftrightarrow> (v, p) \<in> matching nd segs C \<and> segFits nd (segs ! p)"
  by (auto simp: fitting_def matching_def)

text \<open>
  C4.  Let the closest row of a cell be one of the rows, with the index checks of the
  model passing.  Then \<^verbatim>\<open>findClosestSegment\<close> returns what the exhaustive search
  returns, and its result is: null exactly when no row lists a segment with the cell's
  region id; otherwise such a segment, of least distance (horizontal clamp distance plus
  row distance times the row height) among the listed segments with the cell's region id
  that are wide enough for the cell if there is one, and of least distance among all
  listed segments with the cell's region id if none is wide enough.
\<close>

theorem findClosestSegment_minimal:
  assumes "closestIndicesOk m (arch_find_closest_row (m_arch m) (nd_bottom (m_nodes m ndp)))"
    and "arch_find_closest_row (m_arch m) (nd_bottom (m_nodes m ndp)) < m_numSingleHeightRows m"
  shows "findClosestSegment ndp m = findClosestSegment_exhaustive ndp m
    \<and> (\<exists>res. findClosestSegment ndp m = Inr res \<and>
         (case res of
            None \<Rightarrow> \<forall>r p. \<not> closestCandidate m ndp r p
          | Some p \<Rightarrow>
              \<exists>r. closestCandidate m ndp r p
                \<and> (if \<exists>r' p'. closestCandidate m ndp r' p' \<and> closestFits m ndp p'
                    then closestFits m ndp p
                      \<and> (\<forall>r' p'. closestCandidate m ndp r' p' \<and> closestFits m ndp p'
                            \<longrightarrow> closestCost m ndp r p \<le> closestCost m ndp r' p')
                    else \<forall>r' p'. closestCandidate m ndp r' p'
                            \<longrightarrow> closestCost m ndp r p \<le> closestCost m ndp r' p')))"
proof -
  define row where "row = arch_find_closest_row (m_arch m) (nd_bottom (m_nodes m ndp))"
  define nd where "nd = m_nodes m ndp"
  define segs where "segs = m_segments m"
  define sir where "sir = m_segsInRow m"
  define n where "n = m_numSingleHeightRows m"
  define h where "h = m_singleRowHeight m"
  define st0 where "st0 = closestRow nd segs 0 (sir ! nat row) closestInit"
  define st where "st = fold (exhaustiveOffset nd segs sir n h row) [1..n] st0"
  define C where "C = visited sir n h row n"
  from assms(1) have r0: "0 \<le> row" by (simp add: closestIndicesOk_def valid_ix_def row_def)
  from assms(2) have rn: "row < n" by (simp add: row_def n_def)
  from r0 rn have n0: "int (nat n) = n" by simp
  have s0: "stOk nd segs (visited sir n h row 0) st0"
    using stOk_row [OF stOk_init, of nd segs 0 "sir ! nat row"]
    unfolding st0_def visited_0 [OF r0 rn] by simp
  from rounds_eq [OF r0 rn s0, of "nat n"]
  have eq: "fold (closestOffset nd segs sir n h row) [1..n] st0 = st"
    and ok: "stOk nd segs C st"
    unfolding n0 st_def C_def by simp_all
  have f1: "findClosestSegment ndp m = Inr (closestResult st)"
    using assms(1) eq
    unfolding findClosestSegment_def Let_def row_def nd_def segs_def sir_def n_def h_def st0_def
    by simp
  have f2: "findClosestSegment_exhaustive ndp m = Inr (closestResult st)"
    using assms(1)
    unfolding findClosestSegment_exhaustive_def Let_def row_def nd_def segs_def sir_def n_def
      h_def st0_def st_def
    by simp
  have M: "(v, p) \<in> matching nd segs C
      \<longleftrightarrow> (\<exists>r. closestCandidate m ndp r p \<and> v = \<bar>r - row\<bar> * h)" for v p
    using visited_matching [OF r0 rn [unfolded n_def] row_def, of v p]
    unfolding C_def nd_def segs_def sir_def n_def h_def .
  have cost: "closestCost m ndp r p = segHori nd (segs ! p) + \<bar>r - row\<bar> * h" for r p
    by (simp add: closestCost_def nd_def segs_def row_def h_def)
  have fits: "closestFits m ndp p = segFits nd (segs ! p)" for p
    by (simp add: closestFits_def nd_def segs_def)
  from ok have o1: "bestOk nd segs (matching nd segs C) (cl_dist1 st) (cl_best1 st)"
    and o2: "bestOk nd segs (fitting nd segs C) (cl_dist2 st) (cl_best2 st)"
    by (simp_all add: stOk_def)
  have main: "case closestResult st of
            None \<Rightarrow> \<forall>r p. \<not> closestCandidate m ndp r p
          | Some p \<Rightarrow>
              \<exists>r. closestCandidate m ndp r p
                \<and> (if \<exists>r' p'. closestCandidate m ndp r' p' \<and> closestFits m ndp p'
                    then closestFits m ndp p
                      \<and> (\<forall>r' p'. closestCandidate m ndp r' p' \<and> closestFits m ndp p'
                            \<longrightarrow> closestCost m ndp r p \<le> closestCost m ndp r' p')
                    else \<forall>r' p'. closestCandidate m ndp r' p'
                            \<longrightarrow> closestCost m ndp r p \<le> closestCost m ndp r' p')"
  proof (cases "cl_best2 st")
    case (Some p)
    with o2 obtain v where v: "(v, p) \<in> fitting nd segs C"
      "\<forall>(v', p') \<in> fitting nd segs C. segHori nd (segs ! p) + v \<le> segHori nd (segs ! p') + v'"
      by (auto simp: bestOk_def)
    from v(1) have vm: "(v, p) \<in> matching nd segs C" and fp: "segFits nd (segs ! p)"
      by (simp_all add: fitting_matching)
    from vm M obtain r where r: "closestCandidate m ndp r p" "v = \<bar>r - row\<bar> * h" by blast
    have ex: "\<exists>r' p'. closestCandidate m ndp r' p' \<and> closestFits m ndp p'"
      using r(1) fp fits by blast
    have mn: "closestCost m ndp r p \<le> closestCost m ndp r' p'"
      if "closestCandidate m ndp r' p'" "closestFits m ndp p'" for r' p'
    proof -
      from that M [of "\<bar>r' - row\<bar> * h" p'] fits
      have "(\<bar>r' - row\<bar> * h, p') \<in> fitting nd segs C"
        by (auto simp: fitting_matching)
      with v(2) have "segHori nd (segs ! p) + v \<le> segHori nd (segs ! p') + \<bar>r' - row\<bar> * h"
        by blast
      then show ?thesis by (simp add: cost r(2))
    qed
    have "closestCandidate m ndp r p \<and> closestFits m ndp p
        \<and> (\<forall>r' p'. closestCandidate m ndp r' p' \<and> closestFits m ndp p'
              \<longrightarrow> closestCost m ndp r p \<le> closestCost m ndp r' p')"
      using r(1) fp fits mn by blast
    with ex Some show ?thesis by (auto simp: closestResult_def)
  next
    case None
    with o2 have fe: "fitting nd segs C = {}" by (simp add: bestOk_def)
    have nex: "\<not> (\<exists>r' p'. closestCandidate m ndp r' p' \<and> closestFits m ndp p')"
    proof
      assume "\<exists>r' p'. closestCandidate m ndp r' p' \<and> closestFits m ndp p'"
      then obtain r' p' where "closestCandidate m ndp r' p'" "closestFits m ndp p'" by blast
      with M [of "\<bar>r' - row\<bar> * h" p'] fits
      have "(\<bar>r' - row\<bar> * h, p') \<in> fitting nd segs C"
        by (auto simp: fitting_matching)
      with fe show False by simp
    qed
    show ?thesis
    proof (cases "cl_best1 st")
      case N1: None
      with o1 have "matching nd segs C = {}" by (simp add: bestOk_def)
      with M have "\<not> closestCandidate m ndp r p" for r p
        by (metis empty_iff)
      with None N1 show ?thesis by (simp add: closestResult_def)
    next
      case (Some p)
      with o1 obtain v where v: "(v, p) \<in> matching nd segs C"
        "\<forall>(v', p') \<in> matching nd segs C. segHori nd (segs ! p) + v \<le> segHori nd (segs ! p') + v'"
        by (auto simp: bestOk_def)
      from v(1) M obtain r where r: "closestCandidate m ndp r p" "v = \<bar>r - row\<bar> * h" by blast
      have mn: "closestCost m ndp r p \<le> closestCost m ndp r' p'"
        if "closestCandidate m ndp r' p'" for r' p'
      proof -
        from that M [of "\<bar>r' - row\<bar> * h" p']
        have "(\<bar>r' - row\<bar> * h, p') \<in> matching nd segs C" by auto
        with v(2) have "segHori nd (segs ! p) + v \<le> segHori nd (segs ! p') + \<bar>r' - row\<bar> * h"
          by blast
        then show ?thesis by (simp add: cost r(2))
      qed
      have "closestCandidate m ndp r p
        \<and> (\<forall>r' p'. closestCandidate m ndp r' p'
              \<longrightarrow> closestCost m ndp r p \<le> closestCost m ndp r' p')"
        using r(1) mn by blast
      with nex None Some show ?thesis by (auto simp: closestResult_def)
    qed
  qed
  from f1 f2 main show ?thesis by simp
qed

theorem findClosestSegment_minimal_witness:
  "findClosestSegment 3 exMgr5 = Inr (Some 3)
   \<and> findClosestSegment_exhaustive 3 exMgr5 = Inr (Some 3)
   \<and> (\<exists>r. closestCandidate exMgr5 3 r 3
         \<and> closestFits exMgr5 3 3
         \<and> closestCost exMgr5 3 r 3 \<le> closestCost exMgr5 3 0 0)
   \<and> closestCandidate exMgr5 3 1 1 \<and> \<not> closestFits exMgr5 3 1
   \<and> closestCost exMgr5 3 1 1 = 20 \<and> closestCost exMgr5 3 3 3 = 20
   \<and> closestCost exMgr5 3 0 0 = 30"
proof -
  have h: "closestIndicesOk exMgr5
             (arch_find_closest_row (m_arch exMgr5) (nd_bottom (m_nodes exMgr5 3)))"
    "arch_find_closest_row (m_arch exMgr5) (nd_bottom (m_nodes exMgr5 3))
       < m_numSingleHeightRows exMgr5"
    by code_simp+
  have e: "findClosestSegment 3 exMgr5 = Inr (Some 3)"
    by code_simp
  have c: "closestCandidate exMgr5 3 0 0 \<and> closestFits exMgr5 3 0
      \<and> closestCandidate exMgr5 3 1 1 \<and> \<not> closestFits exMgr5 3 1
      \<and> closestCost exMgr5 3 1 1 = 20 \<and> closestCost exMgr5 3 3 3 = 20
      \<and> closestCost exMgr5 3 0 0 = 30"
    by code_simp
  note t = findClosestSegment_minimal [OF h]
  from t e have x: "findClosestSegment_exhaustive 3 exMgr5 = Inr (Some 3)" by simp
  from c have ex: "\<exists>r' p'. closestCandidate exMgr5 3 r' p' \<and> closestFits exMgr5 3 p'" by blast
  from t e have "\<exists>r. closestCandidate exMgr5 3 r 3
      \<and> (if \<exists>r' p'. closestCandidate exMgr5 3 r' p' \<and> closestFits exMgr5 3 p'
          then closestFits exMgr5 3 3
            \<and> (\<forall>r' p'. closestCandidate exMgr5 3 r' p' \<and> closestFits exMgr5 3 p'
                  \<longrightarrow> closestCost exMgr5 3 r 3 \<le> closestCost exMgr5 3 r' p')
          else \<forall>r' p'. closestCandidate exMgr5 3 r' p'
                  \<longrightarrow> closestCost exMgr5 3 r 3 \<le> closestCost exMgr5 3 r' p')"
    by simp
  with ex obtain r where r: "closestCandidate exMgr5 3 r 3" "closestFits exMgr5 3 3"
    "\<forall>r' p'. closestCandidate exMgr5 3 r' p' \<and> closestFits exMgr5 3 p'
        \<longrightarrow> closestCost exMgr5 3 r 3 \<le> closestCost exMgr5 3 r' p'"
    by auto
  from r(3) c have "closestCost exMgr5 3 r 3 \<le> closestCost exMgr5 3 0 0" by blast
  with r(1,2) have "\<exists>r. closestCandidate exMgr5 3 r 3
         \<and> closestFits exMgr5 3 3
         \<and> closestCost exMgr5 3 r 3 \<le> closestCost exMgr5 3 0 0"
    by blast
  with e x c show ?thesis by blast
qed

section \<open>The shift solver's choice of positions\<close>

text \<open>
  When the cells need more sites than the range has, the solver returns false and leaves
  the positions alone.
\<close>

lemma shift_too_wide:
  assumes "valid_ix rowId (arch_rows (m_arch m))"
    and "row_siteSpacing (getRow (m_arch m) rowId) \<noteq> 0"
    and "shift m cells targetLeft posLeft leftLimit rightLimit segId rowId = Inr (b, p)"
    and "sum_list (shift_widths m (row_siteSpacing (getRow (m_arch m) rowId)) cells)
         > (let originX = row_left (getRow (m_arch m) rowId);
                siteSpacing = row_siteSpacing (getRow (m_arch m) rowId);
                siteWidth = row_siteWidth (getRow (m_arch m) rowId);
                i0a = (leftLimit - originX) sdiv siteSpacing;
                i0 = (if originX + i0a * siteSpacing < leftLimit then i0a + 1 else i0a);
                i1a = (rightLimit - originX) sdiv siteSpacing;
                i1 = (if originX + i1a * siteSpacing + siteWidth \<ge> rightLimit
                      then i1a - 1 else i1a)
            in i1 - i0 + 1)"
  shows "\<not> b \<and> p = posLeft"
  using assms unfolding shift_def Let_def by (simp split: if_splits)

text \<open>
  C5.  The solver does not minimize the total displacement.  Only the entry
  \<open>tcost[0][0]\<close> of the cost table is set to zero; the entries \<open>tcost[i][0]\<close> for
  \<open>i > 0\<close> keep the maximum, so the first cell can only be placed on the first site of
  the range, whatever its target.  In the example, the 8 wide node 0 with target 40 in
  the range \<open>[0, 100)\<close> is put at 0 (displacement 40) although 40 is a site-aligned
  position inside the range; and nodes 0 and 1 with targets 40 and 50 in the range
  \<open>[39, 62)\<close> are put at 39 and 50 (displacement 1) although 40 and 50 is such a
  placement with displacement 0.
\<close>

theorem shift_not_minimal:
  "shift exMgr [0] [40] [0] 0 100 0 0 = Inr (True, [0])
   \<and> shiftPlacementOk exMgr [0] 0 100 0 [0]
   \<and> shiftPlacementOk exMgr [0] 0 100 0 [40]
   \<and> totalDisplacement [40] [0] = 40
   \<and> totalDisplacement [40] [40] = 0
   \<and> shift exMgr [0, 1] [40, 50] [0, 0] 39 62 0 0 = Inr (True, [39, 50])
   \<and> shiftPlacementOk exMgr [0, 1] 39 62 0 [39, 50]
   \<and> shiftPlacementOk exMgr [0, 1] 39 62 0 [40, 50]
   \<and> totalDisplacement [40, 50] [39, 50] = 1
   \<and> totalDisplacement [40, 50] [40, 50] = 0"
  by code_simp

end
